theory Spec2Isabelle
  imports Complex_Main "HOL-Library.AList" "HOL-Library.Sublist" "HOL-Library.Multiset"
begin

section \<open>Data model of the knowledge graph (agent/knowledge/knowledge_graph.py)\<close>

text \<open>
  Python dictionaries are association lists in insertion order (\<open>d[k] = v\<close> is
  \<open>AList.update\<close>, \<open>del d[k]\<close> is \<open>AList.delete\<close>, \<open>k in d\<close> is
  \<open>map_of d k \<noteq> None\<close>, \<open>len d\<close> is \<open>length\<close>). Python sets are lists without
  repetition. Numbers that Python holds as floats (importance, confidence, relevance) are
  rationals, so that sums and products are the exact ones. An instant of the clock is a
  natural number; one reading \<open>now\<close> stands for the readings made within a single call,
  and \<open>ts\<close> is the text that \<open>datetime.now(timezone.utc).timestamp()\<close> formats to.
  A timestamp field of a stored entity or relation holds a datetime object, or a string:
  the store that \<open>_load_knowledge_graph\<close> restores takes its entities from
  \<open>entities.json\<close> as \<open>json.load\<close> gives them, with the timestamps as the strings
  that were written.
\<close>

type_synonym datetime = nat

datatype stamp = Instant datetime | Text string

record 't entity_rec =
  e_id :: string
  e_name :: string
  e_type :: string
  e_attributes :: "(string \<times> string) list"
  e_description :: string
  e_importance :: rat
  e_created_at :: 't
  e_last_accessed :: 't
  e_access_count :: int
  e_confidence :: rat

type_synonym entity = "stamp entity_rec"

record 't relation_rec =
  r_id :: string
  r_source :: string
  r_target :: string
  r_type :: string
  r_attributes :: "(string \<times> string) list"
  r_importance :: rat
  r_confidence :: rat
  r_created_at :: 't
  r_bidirectional :: bool

type_synonym relation = "stamp relation_rec"

text \<open>The payloads of \<open>add_entity\<close> and \<open>add_relation\<close>: every key may be absent.\<close>

record entity_data =
  d_id :: "string option"
  d_name :: "string option"
  d_type :: "string option"
  d_attributes :: "(string \<times> string) list option"
  d_description :: "string option"
  d_importance :: "rat option"
  d_confidence :: "rat option"

record relation_data =
  rd_source :: "string option"
  rd_target :: "string option"
  rd_type :: "string option"
  rd_attributes :: "(string \<times> string) list option"
  rd_importance :: "rat option"
  rd_confidence :: "rat option"
  rd_bidirectional :: "bool option"

datatype error = ValueError string | TypeError | NodeNotFound | AttributeError

datatype 'a outcome = Returned 'a | Raised error

subsection \<open>The directed multigraph (networkx.MultiDiGraph)\<close>

text \<open>
  Nodes carry the attributes they were added with (none for a node that \<open>add_edge\<close>
  created); an edge is keyed by source, target and key and carries a relation record. The
  dict-of-dicts adjacency of networkx is flattened into one association list keyed by the
  triple.
\<close>

record graph =
  g_nodes :: "(string \<times> entity option) list"
  g_edges :: "((string \<times> string \<times> string) \<times> relation) list"

definition empty_graph :: graph where
  "empty_graph = \<lparr>g_nodes = [], g_edges = []\<rparr>"

definition has_node :: "graph \<Rightarrow> string \<Rightarrow> bool" where
  "has_node g n = (map_of (g_nodes g) n \<noteq> None)"

definition add_node :: "string \<Rightarrow> entity \<Rightarrow> graph \<Rightarrow> graph" where
  "add_node n e g = g\<lparr>g_nodes := AList.update n (Some e) (g_nodes g)\<rparr>"

definition ensure_node :: "string \<Rightarrow> graph \<Rightarrow> graph" where
  "ensure_node n g = (if has_node g n then g else g\<lparr>g_nodes := g_nodes g @ [(n, None)]\<rparr>)"

definition add_edge :: "string \<Rightarrow> string \<Rightarrow> string \<Rightarrow> relation \<Rightarrow> graph \<Rightarrow> graph" where
  "add_edge u v k d g =
     (let g1 = ensure_node u g;
          g2 = ensure_node v g1
      in g2\<lparr>g_edges := AList.update (u, v, k) d (g_edges g2)\<rparr>)"

definition has_edge :: "graph \<Rightarrow> string \<Rightarrow> string \<Rightarrow> string \<Rightarrow> bool" where
  "has_edge g u v k = (map_of (g_edges g) (u, v, k) \<noteq> None)"

definition remove_edge :: "string \<Rightarrow> string \<Rightarrow> string \<Rightarrow> graph \<Rightarrow> graph" where
  "remove_edge u v k g = g\<lparr>g_edges := AList.delete (u, v, k) (g_edges g)\<rparr>"

definition remove_node :: "string \<Rightarrow> graph \<Rightarrow> graph" where
  "remove_node n g =
     g\<lparr>g_nodes := AList.delete n (g_nodes g),
       g_edges := filter (\<lambda>((u, v, k), d). u \<noteq> n \<and> v \<noteq> n) (g_edges g)\<rparr>"

subsection \<open>The store\<close>

record store =
  max_entities :: int
  max_relations :: int
  entities :: "(string \<times> entity) list"
  relations :: "(string \<times> relation) list"
  graph :: graph
  type_index :: "(string \<times> string list) list"
  attribute_index :: "(string \<times> (string \<times> string list) list) list"
  creation_time :: datetime
  last_updated :: datetime

definition new_store :: "int \<Rightarrow> int \<Rightarrow> datetime \<Rightarrow> store" where
  "new_store me mr now =
     \<lparr>max_entities = me, max_relations = mr, entities = [], relations = [],
      graph = empty_graph, type_index = [], attribute_index = [],
      creation_time = now, last_updated = now\<rparr>"

text \<open>\<open>s.add(x)\<close> and \<open>s.discard(x)\<close> on a set.\<close>

definition set_add :: "'a \<Rightarrow> 'a list \<Rightarrow> 'a list" where
  "set_add x xs = (if x \<in> set xs then xs else xs @ [x])"

definition set_discard :: "'a \<Rightarrow> 'a list \<Rightarrow> 'a list" where
  "set_discard x xs = removeAll x xs"

text \<open>\<open>d[k]\<close> for a key the code has just made sure is present.\<close>

definition item :: "('k \<times> 'v list) list \<Rightarrow> 'k \<Rightarrow> 'v list" where
  "item d k = (case map_of d k of None \<Rightarrow> [] | Some v \<Rightarrow> v)"

definition index_attribute ::
  "string \<Rightarrow> string \<times> string \<Rightarrow> (string \<times> (string \<times> string list) list) list
     \<Rightarrow> (string \<times> (string \<times> string list) list) list" where
  "index_attribute entity_id av ai =
     (case av of (attr_name, attr_value) \<Rightarrow>
        let ai1 = (if map_of ai attr_name = None then AList.update attr_name [] ai else ai);
            inner = item ai1 attr_name;
            inner1 = (if map_of inner attr_value = None
                      then AList.update attr_value [] inner else inner)
        in AList.update attr_name
             (AList.update attr_value (set_add entity_id (item inner1 attr_value)) inner1) ai1)"

definition update_entity_indexes :: "string \<Rightarrow> entity \<Rightarrow> store \<Rightarrow> store" where
  "update_entity_indexes entity_id entity s =
     (let entity_type = e_type entity;
          ti1 = (if map_of (type_index s) entity_type = None
                 then AList.update entity_type [] (type_index s) else type_index s);
          ti2 = AList.update entity_type (set_add entity_id (item ti1 entity_type)) ti1
      in s\<lparr>type_index := ti2,
            attribute_index :=
              fold (index_attribute entity_id) (e_attributes entity) (attribute_index s)\<rparr>)"

definition remove_relation :: "datetime \<Rightarrow> string \<Rightarrow> store \<Rightarrow> bool \<times> store" where
  "remove_relation now relation_id s =
     (case map_of (relations s) relation_id of
        None \<Rightarrow> (False, s)
      | Some relation \<Rightarrow>
          let g = graph s;
              g1 = (if has_edge g (r_source relation) (r_target relation) relation_id
                    then remove_edge (r_source relation) (r_target relation) relation_id g
                    else g);
              reverse_id = ''reverse_'' @ relation_id;
              g2 = (if has_edge g1 (r_target relation) (r_source relation) reverse_id
                    then remove_edge (r_target relation) (r_source relation) reverse_id g1
                    else g1)
          in (True, s\<lparr>graph := g2,
                       relations := AList.delete relation_id (relations s),
                       last_updated := now\<rparr>))"

definition unindex_attribute ::
  "string \<Rightarrow> string \<times> string \<Rightarrow> (string \<times> (string \<times> string list) list) list
     \<Rightarrow> (string \<times> (string \<times> string list) list) list" where
  "unindex_attribute entity_id av ai =
     (case av of (attr_name, attr_value) \<Rightarrow>
        if map_of ai attr_name \<noteq> None \<and> map_of (item ai attr_name) attr_value \<noteq> None
        then AList.update attr_name
               (AList.update attr_value
                  (set_discard entity_id (item (item ai attr_name) attr_value))
                  (item ai attr_name)) ai
        else ai)"

definition remove_entity :: "datetime \<Rightarrow> string \<Rightarrow> store \<Rightarrow> bool \<times> store" where
  "remove_entity now entity_id s =
     (case map_of (entities s) entity_id of
        None \<Rightarrow> (False, s)
      | Some entity \<Rightarrow>
          let entity_type = e_type entity;
              ti = (if map_of (type_index s) entity_type \<noteq> None
                    then AList.update entity_type
                           (set_discard entity_id (item (type_index s) entity_type))
                           (type_index s)
                    else type_index s);
              ai = fold (unindex_attribute entity_id) (e_attributes entity) (attribute_index s);
              s1 = s\<lparr>type_index := ti, attribute_index := ai\<rparr>;
              relations_to_remove =
                map fst (filter (\<lambda>(relation_id, relation).
                            r_source relation = entity_id \<or> r_target relation = entity_id)
                          (relations s1));
              s2 = fold (\<lambda>relation_id st. snd (remove_relation now relation_id st))
                     relations_to_remove s1;
              g = (if has_node (graph s2) entity_id
                   then remove_node entity_id (graph s2) else graph s2)
          in (True, s2\<lparr>graph := g,
                        entities := AList.delete entity_id (entities s2),
                        last_updated := now\<rparr>))"

text \<open>
  \<open>min(items, key=f)\<close>: the first item, in iteration order, whose key no other item
  undercuts. \<open>min_by f best xs\<close> continues the scan with \<open>best\<close> as the candidate.
\<close>

fun min_by :: "('a \<Rightarrow> rat) \<Rightarrow> 'a \<Rightarrow> 'a list \<Rightarrow> 'a" where
  "min_by f best [] = best"
| "min_by f best (x # xs) = min_by f (if f x < f best then x else best) xs"

definition entity_weight :: "entity \<Rightarrow> rat" where
  "entity_weight e = e_importance e * (1 + of_int (e_access_count e) * (1 / 10))"

definition remove_least_important_entity :: "datetime \<Rightarrow> store \<Rightarrow> store" where
  "remove_least_important_entity now s =
     (case entities s of
        [] \<Rightarrow> s
      | kv # kvs \<Rightarrow>
          let least_important_id = fst (min_by (\<lambda>(eid, e). entity_weight e) kv kvs)
          in snd (remove_entity now least_important_id s))"

definition remove_least_important_relation :: "datetime \<Rightarrow> store \<Rightarrow> store" where
  "remove_least_important_relation now s =
     (case relations s of
        [] \<Rightarrow> s
      | kv # kvs \<Rightarrow>
          let least_important_id = fst (min_by (\<lambda>(rid, r). r_importance r) kv kvs)
          in snd (remove_relation now least_important_id s))"

definition get_or :: "'a option \<Rightarrow> 'a \<Rightarrow> 'a" where
  "get_or v dflt = (case v of None \<Rightarrow> dflt | Some x \<Rightarrow> x)"

definition add_entity :: "datetime \<Rightarrow> string \<Rightarrow> entity_data \<Rightarrow> store \<Rightarrow> string \<times> store" where
  "add_entity now ts entity_data s =
     (let s1 = (if int (length (entities s)) \<ge> max_entities s
                then remove_least_important_entity now s else s);
          entity_id = (case d_id entity_data of
                         None \<Rightarrow> ''entity_'' @ ts
                       | Some i \<Rightarrow> if i = [] then ''entity_'' @ ts else i);
          entity = \<lparr>e_id = entity_id,
                    e_name = get_or (d_name entity_data) '''',
                    e_type = get_or (d_type entity_data) ''unknown'',
                    e_attributes = get_or (d_attributes entity_data) [],
                    e_description = get_or (d_description entity_data) '''',
                    e_importance = get_or (d_importance entity_data) (1 / 2),
                    e_created_at = Instant now,
                    e_last_accessed = Instant now,
                    e_access_count = 0,
                    e_confidence = get_or (d_confidence entity_data) 1\<rparr>;
          s2 = s1\<lparr>entities := AList.update entity_id entity (entities s1)\<rparr>;
          s3 = s2\<lparr>graph := add_node entity_id entity (graph s2)\<rparr>;
          s4 = update_entity_indexes entity_id entity s3
      in (entity_id, s4\<lparr>last_updated := now\<rparr>))"

text \<open>
  A payload without \<open>source\<close> or \<open>target\<close> gives \<open>None\<close> for the id, and \<open>None\<close>
  is no key of the entity map.
\<close>

definition add_relation ::
  "datetime \<Rightarrow> string \<Rightarrow> relation_data \<Rightarrow> store \<Rightarrow> string outcome \<times> store" where
  "add_relation now ts relation_data s =
     (let s1 = (if int (length (relations s)) \<ge> max_relations s
                then remove_least_important_relation now s else s)
      in case (rd_source relation_data, rd_target relation_data) of
           (Some source_id, Some target_id) \<Rightarrow>
             if map_of (entities s1) source_id = None \<or> map_of (entities s1) target_id = None
             then (Raised (ValueError ''Source or target entity does not exist''), s1)
             else
               let relation_id = ''rel_'' @ ts;
                   relation = \<lparr>r_id = relation_id,
                               r_source = source_id,
                               r_target = target_id,
                               r_type = get_or (rd_type relation_data) ''related_to'',
                               r_attributes = get_or (rd_attributes relation_data) [],
                               r_importance = get_or (rd_importance relation_data) (1 / 2),
                               r_confidence = get_or (rd_confidence relation_data) 1,
                               r_created_at = Instant now,
                               r_bidirectional =
                                 get_or (rd_bidirectional relation_data) False\<rparr>;
                   s2 = s1\<lparr>relations := AList.update relation_id relation (relations s1)\<rparr>;
                   g1 = add_edge source_id target_id relation_id relation (graph s2);
                   g2 = (if r_bidirectional relation
                         then let reverse_relation =
                                    relation\<lparr>r_source := target_id, r_target := source_id,
                                             r_id := ''reverse_'' @ relation_id\<rparr>
                              in add_edge target_id source_id (r_id reverse_relation)
                                   reverse_relation g1
                         else g1)
               in (Returned relation_id, s2\<lparr>graph := g2, last_updated := now\<rparr>)
         | _ \<Rightarrow> (Raised (ValueError ''Source or target entity does not exist''), s1))"


definition get_entity :: "datetime \<Rightarrow> string \<Rightarrow> store \<Rightarrow> entity option \<times> store" where
  "get_entity now entity_id s =
     (case map_of (entities s) entity_id of
        Some entity \<Rightarrow>
          let entity' = entity\<lparr>e_last_accessed := Instant now,
                                e_access_count := e_access_count entity + 1\<rparr>
          in (Some entity', s\<lparr>entities := AList.update entity_id entity' (entities s)\<rparr>)
      | None \<Rightarrow> (None, s))"

section \<open>Query engine\<close>

text \<open>\<open>str.lower\<close> on the letters of ASCII, and \<open>a in b\<close> for two strings.\<close>

definition lower_char :: "char \<Rightarrow> char" where
  "lower_char c =
     (let n = (of_char c :: nat) in if 65 \<le> n \<and> n \<le> 90 then char_of (n + 32) else c)"

definition lower :: "string \<Rightarrow> string" where
  "lower s = map lower_char s"

fun str_in :: "string \<Rightarrow> string \<Rightarrow> bool" where
  "str_in q [] = (q = [])"
| "str_in q (c # cs) = (prefix q (c # cs) \<or> str_in q cs)"

text \<open>
  The dictionaries that \<open>query\<close>, \<open>find_related_entities\<close> and the reasoning engine
  return. \<open>EntityResult e r\<close> is \<open>{**entity, "type": "entity", "relevance": r}\<close>:
  \<open>e\<close> holds the keys of the entity, the key \<open>type\<close> among them.
  \<open>RelationResult rel source_name target_name r\<close> likewise.
\<close>

record inference =
  i_id :: string
  i_type :: string
  i_content :: string
  i_rule_applied :: string
  i_confidence :: rat
  i_relevance :: rat
  i_reasoning_type :: string

record graph_inference =
  gi_id :: string
  gi_type :: string
  gi_content :: string
  gi_source_entity :: string
  gi_target_entity :: string
  gi_relationship_strength :: rat
  gi_relationship_distance :: int
  gi_confidence :: rat
  gi_relevance :: rat
  gi_reasoning_type :: string

datatype result =
    EntityResult entity rat
  | RelationResult relation string string rat
  | RuleInference inference
  | GraphInference graph_inference

fun result_id :: "result \<Rightarrow> string" where
  "result_id (EntityResult e r) = e_id e"
| "result_id (RelationResult rel sn tn r) = r_id rel"
| "result_id (RuleInference i) = i_id i"
| "result_id (GraphInference gi) = gi_id gi"

fun result_type :: "result \<Rightarrow> string" where
  "result_type (EntityResult e r) = e_type e"
| "result_type (RelationResult rel sn tn r) = r_type rel"
| "result_type (RuleInference i) = i_type i"
| "result_type (GraphInference gi) = gi_type gi"

fun result_name :: "result \<Rightarrow> string option" where
  "result_name (EntityResult e r) = Some (e_name e)"
| "result_name _ = None"

fun relevance :: "result \<Rightarrow> rat" where
  "relevance (EntityResult e r) = r"
| "relevance (RelationResult rel sn tn r) = r"
| "relevance (RuleInference i) = i_relevance i"
| "relevance (GraphInference gi) = gi_relevance gi"

text \<open>\<open>xs[:limit]\<close>: a negative limit counts from the end.\<close>

definition slice_to :: "int \<Rightarrow> 'a list \<Rightarrow> 'a list" where
  "slice_to limit xs =
     (if 0 \<le> limit then take (nat limit) xs else take (length xs - nat (- limit)) xs)"

text \<open>\<open>xs.sort(key=f, reverse=True)\<close>: descending, equal keys keep their order.\<close>

definition sort_desc :: "('a \<Rightarrow> rat) \<Rightarrow> 'a list \<Rightarrow> 'a list" where
  "sort_desc f xs = sort_key (\<lambda>x. - f x) xs"

definition entity_relevance :: "string \<Rightarrow> entity \<Rightarrow> rat" where
  "entity_relevance query_lower entity =
     (let r0 = 0;
          r1 = (if str_in query_lower (lower (e_name entity)) then r0 + 1 else r0);
          r2 = (if str_in query_lower (lower (e_description entity)) then r1 + 4 / 5 else r1);
          r3 = fold (\<lambda>attr_value r. if str_in query_lower (lower attr_value)
                                      then r + 1 / 2 else r)
                 (map snd (e_attributes entity)) r2;
          r4 = (if str_in query_lower (lower (e_type entity)) then r3 + 3 / 10 else r3)
      in r4 + e_importance entity * (3 / 10))"

definition relation_relevance :: "string \<Rightarrow> relation \<Rightarrow> rat" where
  "relation_relevance query_lower relation =
     (let r0 = 0;
          r1 = (if str_in query_lower (lower (r_type relation)) then r0 + 4 / 5 else r0)
      in r1 + r_importance relation * (1 / 5))"

definition entity_name_or_unknown :: "store \<Rightarrow> string \<Rightarrow> string" where
  "entity_name_or_unknown s i =
     (case map_of (entities s) i of None \<Rightarrow> ''Unknown'' | Some e \<Rightarrow> e_name e)"

definition search_entity :: "string \<Rightarrow> string \<times> entity \<Rightarrow> result list \<Rightarrow> result list" where
  "search_entity query_lower kv results =
     (case kv of (entity_id, entity) \<Rightarrow>
        let r = entity_relevance query_lower entity
        in if r > 0 then results @ [EntityResult (entity\<lparr>e_type := ''entity''\<rparr>) r]
           else results)"

definition search_relation ::
  "store \<Rightarrow> string \<Rightarrow> string \<times> relation \<Rightarrow> result list \<Rightarrow> result list" where
  "search_relation s query_lower kv results =
     (case kv of (relation_id, relation) \<Rightarrow>
        let r = relation_relevance query_lower relation
        in if r > 0
           then results @ [RelationResult (relation\<lparr>r_type := ''relation''\<rparr>)
                             (entity_name_or_unknown s (r_source relation))
                             (entity_name_or_unknown s (r_target relation)) r]
           else results)"

definition query :: "string \<Rightarrow> int \<Rightarrow> store \<Rightarrow> result list" where
  "query query_text limit s =
     (let query_lower = lower query_text;
          results1 = fold (search_entity query_lower) (entities s) [];
          results2 = fold (search_relation s query_lower) (relations s) results1
      in slice_to limit (sort_desc relevance results2))"

section \<open>Traversal engine\<close>

text \<open>
  \<open>networkx.single_source_shortest_path_length(G, source, cutoff)\<close>: breadth-first
  levels from the source, each node reported once with the level at which it is first
  seen, no further than \<open>cutoff\<close> levels. \<open>succs g v\<close> lists the heads of the edges
  leaving \<open>v\<close>; a head that several edges reach occurs several times and is taken once,
  as it is seen after its first occurrence.
\<close>

definition succs :: "graph \<Rightarrow> string \<Rightarrow> string list" where
  "succs g v = map (\<lambda>((u, w, k), d). w) (filter (\<lambda>((u, w, k), d). u = v) (g_edges g))"

definition visit :: "string \<Rightarrow> string list \<times> string list \<Rightarrow> string list \<times> string list" where
  "visit w acc =
     (case acc of (seen, nextlevel) \<Rightarrow>
        if w \<in> set seen then (seen, nextlevel) else (seen @ [w], nextlevel @ [w]))"

definition expand :: "graph \<Rightarrow> string list \<Rightarrow> string list \<Rightarrow> string list \<times> string list" where
  "expand g thislevel seen = fold (\<lambda>v acc. fold visit (succs g v) acc) thislevel (seen, [])"

fun bfs_loop ::
  "graph \<Rightarrow> string list \<Rightarrow> string list \<Rightarrow> int \<Rightarrow> nat \<Rightarrow> (string \<times> int) list" where
  "bfs_loop g seen nextlevel level 0 = []"
| "bfs_loop g seen nextlevel level (Suc remaining) =
     (if nextlevel = [] then []
      else case expand g nextlevel seen of
             (seen', nextlevel') \<Rightarrow>
               let found = map (\<lambda>w. (w, level + 1)) nextlevel'
               in if length seen' = length (g_nodes g) then found
                  else found @ bfs_loop g seen' nextlevel' (level + 1) remaining)"

definition single_source_shortest_path_length ::
  "graph \<Rightarrow> string \<Rightarrow> int \<Rightarrow> (string \<times> int) list outcome" where
  "single_source_shortest_path_length g source cutoff =
     (if \<not> has_node g source then Raised NodeNotFound
      else Returned ((source, 0) # bfs_loop g [source] [source] 0 (nat cutoff)))"

text \<open>
  An entity returned by \<open>find_related_entities\<close>: the copy that \<open>get_entity\<close> gave,
  with the two keys the traversal adds.
\<close>

record related =
  rel_entity :: entity
  relationship_distance :: int
  relationship_strength :: rat

text \<open>
  The loop body of \<open>find_related_entities\<close>. \<open>nx.shortest_path\<close> gives a path of
  \<open>path_info + 1\<close> nodes. With a non-empty \<open>relation_types\<close> the first pass of the
  inner loop evaluates \<open>path[target_id]\<close>, a list indexed by a string, which raises
  TypeError; \<open>except nx.NetworkXError\<close> does not catch it.
\<close>

fun related_loop ::
  "datetime \<Rightarrow> string \<Rightarrow> string list option \<Rightarrow> (string \<times> int) list \<Rightarrow> related list
     \<Rightarrow> store \<Rightarrow> related list outcome \<times> store" where
  "related_loop now entity_id relation_types [] related_entities s =
     (Returned related_entities, s)"
| "related_loop now entity_id relation_types ((target_id, path_info) # rest)
       related_entities s =
     (if target_id = entity_id \<or> map_of (entities s) target_id = None
      then related_loop now entity_id relation_types rest related_entities s
      else if path_info + 1 < 2
      then related_loop now entity_id relation_types rest related_entities s
      else if relation_types \<noteq> None \<and> relation_types \<noteq> Some []
      then (Raised TypeError, s)
      else case get_entity now target_id s of
             (Some entity, s') \<Rightarrow>
               related_loop now entity_id relation_types rest
                 (related_entities @
                    [\<lparr>rel_entity = entity, relationship_distance = path_info,
                      relationship_strength = 1 / (of_int path_info + 1)\<rparr>]) s'
           | (None, s') \<Rightarrow>
               related_loop now entity_id relation_types rest related_entities s')"

definition find_related_entities ::
  "datetime \<Rightarrow> string \<Rightarrow> string list option \<Rightarrow> int \<Rightarrow> store
     \<Rightarrow> related list outcome \<times> store" where
  "find_related_entities now entity_id relation_types max_depth s =
     (if map_of (entities s) entity_id = None then (Returned [], s)
      else case single_source_shortest_path_length (graph s) entity_id max_depth of
             Raised e \<Rightarrow> (Raised e, s)
           | Returned lengths \<Rightarrow>
               (case related_loop now entity_id relation_types lengths [] s of
                  (Raised e, s') \<Rightarrow> (Raised e, s')
                | (Returned related_entities, s') \<Rightarrow>
                    (Returned (sort_desc relationship_strength related_entities), s')))"

definition fetch :: "datetime \<Rightarrow> string \<Rightarrow> entity list \<times> store \<Rightarrow> entity list \<times> store" where
  "fetch now entity_id acc =
     (case acc of (found, s) \<Rightarrow>
        (case get_entity now entity_id s of
           (Some entity, s') \<Rightarrow> (found @ [entity], s')
         | (None, s') \<Rightarrow> (found, s')))"

definition find_entities_by_type ::
  "datetime \<Rightarrow> string \<Rightarrow> int \<Rightarrow> store \<Rightarrow> entity list \<times> store" where
  "find_entities_by_type now entity_type limit s =
     (case map_of (type_index s) entity_type of
        None \<Rightarrow> ([], s)
      | Some ids \<Rightarrow>
          (case fold (fetch now) ids ([], s) of
             (found, s') \<Rightarrow> (slice_to limit (sort_desc e_importance found), s')))"

definition find_entities_by_attribute ::
  "datetime \<Rightarrow> string \<Rightarrow> string \<Rightarrow> int \<Rightarrow> store \<Rightarrow> entity list \<times> store" where
  "find_entities_by_attribute now attribute_name attribute_value limit s =
     (case map_of (attribute_index s) attribute_name of
        None \<Rightarrow> ([], s)
      | Some by_value \<Rightarrow>
          (case map_of by_value attribute_value of
             None \<Rightarrow> ([], s)
           | Some ids \<Rightarrow>
               (case fold (fetch now) ids ([], s) of
                  (found, s') \<Rightarrow> (slice_to limit (sort_desc e_importance found), s'))))"

section \<open>Export and import\<close>

text \<open>
  \<open>datetime.isoformat\<close> and \<open>datetime.fromisoformat\<close> belong to the Python library;
  they are the parameters \<open>isoformat\<close> and \<open>fromisoformat\<close>, the second returning
  \<open>None\<close> where the library raises ValueError.
\<close>

record statistics =
  total_entities :: nat
  total_relations :: nat
  graph_nodes :: nat
  graph_edges :: nat
  entity_types :: nat
  indexed_attributes :: nat
  st_creation_time :: string
  st_last_updated :: string
  average_entity_importance :: rat
  average_relation_importance :: rat

definition mean :: "rat list \<Rightarrow> rat" where
  "mean xs = sum_list xs / of_nat (length xs)"

definition get_statistics :: "(datetime \<Rightarrow> string) \<Rightarrow> store \<Rightarrow> statistics" where
  "get_statistics isoformat s =
     \<lparr>total_entities = length (entities s),
      total_relations = length (relations s),
      graph_nodes = length (g_nodes (graph s)),
      graph_edges = length (g_edges (graph s)),
      entity_types = length (type_index s),
      indexed_attributes = length (attribute_index s),
      st_creation_time = isoformat (creation_time s),
      st_last_updated = isoformat (last_updated s),
      average_entity_importance =
        (if entities s \<noteq> [] then mean (map (\<lambda>(k, e). e_importance e) (entities s)) else 0),
      average_relation_importance =
        (if relations s \<noteq> [] then mean (map (\<lambda>(k, r). r_importance r) (relations s))
         else 0)\<rparr>"

record kg_dict =
  kd_entities :: "(string \<times> string entity_rec) list option"
  kd_relations :: "(string \<times> string relation_rec) list option"
  kd_type_index :: "(string \<times> string list) list option"
  kd_attribute_index :: "(string \<times> (string \<times> string list) list) list option"
  kd_statistics :: "statistics option"

definition entity_times :: "'a entity_rec \<Rightarrow> 'b \<Rightarrow> 'b \<Rightarrow> 'b entity_rec" where
  "entity_times e c l =
     \<lparr>e_id = e_id e, e_name = e_name e, e_type = e_type e, e_attributes = e_attributes e,
      e_description = e_description e, e_importance = e_importance e,
      e_created_at = c, e_last_accessed = l,
      e_access_count = e_access_count e, e_confidence = e_confidence e\<rparr>"

definition relation_time :: "'a relation_rec \<Rightarrow> 'b \<Rightarrow> 'b relation_rec" where
  "relation_time r c =
     \<lparr>r_id = r_id r, r_source = r_source r, r_target = r_target r, r_type = r_type r,
      r_attributes = r_attributes r, r_importance = r_importance r,
      r_confidence = r_confidence r, r_created_at = c,
      r_bidirectional = r_bidirectional r\<rparr>"

text \<open>
  \<open>{k: f(v) for k, v in d.items()}\<close>, and a loop that stores \<open>f(v)\<close> under \<open>k\<close> for
  every item; \<open>set(xs)\<close> and \<open>list(s)\<close>.
\<close>

definition dict_of :: "('v \<Rightarrow> 'w) \<Rightarrow> ('k \<times> 'v) list \<Rightarrow> ('k \<times> 'w) list" where
  "dict_of f xs = fold (\<lambda>(k, v) d. AList.update k (f v) d) xs []"

definition py_set :: "'a list \<Rightarrow> 'a list" where
  "py_set xs = fold set_add xs []"

definition py_list :: "'a list \<Rightarrow> 'a list" where
  "py_list xs = xs"

text \<open>
  \<open>to_dict\<close> calls \<open>.isoformat()\<close> on the stored timestamps. A string has no such
  method: the call raises AttributeError at the first entity or relation whose timestamp
  is a string.
\<close>

fun export_entities ::
  "(datetime \<Rightarrow> string) \<Rightarrow> (string \<times> entity) list \<Rightarrow> (string \<times> string entity_rec) list
     \<Rightarrow> (string \<times> string entity_rec) list outcome" where
  "export_entities isoformat [] serializable_entities = Returned serializable_entities"
| "export_entities isoformat ((entity_id, entity) # rest) serializable_entities =
     (case e_created_at entity of
        Text t \<Rightarrow> Raised AttributeError
      | Instant c \<Rightarrow>
          (case e_last_accessed entity of
             Text t \<Rightarrow> Raised AttributeError
           | Instant l \<Rightarrow>
               export_entities isoformat rest
                 (AList.update entity_id (entity_times entity (isoformat c) (isoformat l))
                    serializable_entities)))"

fun export_relations ::
  "(datetime \<Rightarrow> string) \<Rightarrow> (string \<times> relation) list
     \<Rightarrow> (string \<times> string relation_rec) list
     \<Rightarrow> (string \<times> string relation_rec) list outcome" where
  "export_relations isoformat [] serializable_relations = Returned serializable_relations"
| "export_relations isoformat ((relation_id, relation) # rest) serializable_relations =
     (case r_created_at relation of
        Text t \<Rightarrow> Raised AttributeError
      | Instant c \<Rightarrow>
          export_relations isoformat rest
            (AList.update relation_id (relation_time relation (isoformat c))
               serializable_relations))"

definition to_dict :: "(datetime \<Rightarrow> string) \<Rightarrow> store \<Rightarrow> kg_dict outcome" where
  "to_dict isoformat s =
     (case export_entities isoformat (entities s) [] of
        Raised e \<Rightarrow> Raised e
      | Returned serializable_entities \<Rightarrow>
          (case export_relations isoformat (relations s) [] of
             Raised e \<Rightarrow> Raised e
           | Returned serializable_relations \<Rightarrow>
               Returned
                 \<lparr>kd_entities = Some serializable_entities,
                  kd_relations = Some serializable_relations,
                  kd_type_index = Some (dict_of py_list (type_index s)),
                  kd_attribute_index = Some (dict_of (dict_of py_list) (attribute_index s)),
                  kd_statistics = Some (get_statistics isoformat s)\<rparr>))"

fun load_entities ::
  "(string \<Rightarrow> datetime option) \<Rightarrow> (string \<times> string entity_rec) list
     \<Rightarrow> (string \<times> entity) list \<Rightarrow> error option \<times> (string \<times> entity) list" where
  "load_entities fromisoformat [] acc = (None, acc)"
| "load_entities fromisoformat ((entity_id, entity_data) # rest) acc =
     (case fromisoformat (e_created_at entity_data) of
        None \<Rightarrow> (Some (ValueError ''Invalid isoformat string''), acc)
      | Some c \<Rightarrow>
          (case fromisoformat (e_last_accessed entity_data) of
             None \<Rightarrow> (Some (ValueError ''Invalid isoformat string''), acc)
           | Some l \<Rightarrow>
               load_entities fromisoformat rest
                 (AList.update entity_id (entity_times entity_data (Instant c) (Instant l)) acc)))"

fun load_relations ::
  "(string \<Rightarrow> datetime option) \<Rightarrow> (string \<times> string relation_rec) list
     \<Rightarrow> (string \<times> relation) list \<Rightarrow> error option \<times> (string \<times> relation) list" where
  "load_relations fromisoformat [] acc = (None, acc)"
| "load_relations fromisoformat ((relation_id, relation_data) # rest) acc =
     (case fromisoformat (r_created_at relation_data) of
        None \<Rightarrow> (Some (ValueError ''Invalid isoformat string''), acc)
      | Some c \<Rightarrow>
          load_relations fromisoformat rest
            (AList.update relation_id (relation_time relation_data (Instant c)) acc))"

definition from_dict ::
  "(string \<Rightarrow> datetime option) \<Rightarrow> kg_dict \<Rightarrow> store \<Rightarrow> unit outcome \<times> store" where
  "from_dict fromisoformat data s =
     (case load_entities fromisoformat (get_or (kd_entities data) []) [] of
        (Some err, es) \<Rightarrow> (Raised err, s\<lparr>entities := es\<rparr>)
      | (None, es) \<Rightarrow>
          (case load_relations fromisoformat (get_or (kd_relations data) []) [] of
             (Some err, rs) \<Rightarrow> (Raised err, s\<lparr>entities := es, relations := rs\<rparr>)
           | (None, rs) \<Rightarrow>
               let g1 = fold (\<lambda>(entity_id, entity). add_node entity_id entity) es empty_graph;
                   g2 = fold (\<lambda>(relation_id, relation).
                               add_edge (r_source relation) (r_target relation)
                                 (r_id relation) relation) rs g1
               in (Returned (),
                   s\<lparr>entities := es, relations := rs,
                     type_index := dict_of py_set (get_or (kd_type_index data) []),
                     attribute_index :=
                       dict_of (dict_of py_set) (get_or (kd_attribute_index data) []),
                     graph := g2\<rparr>)))"

section \<open>Persistence\<close>

text \<open>
  \<open>_save_knowledge_graph\<close> writes three JSON files with \<open>json.dump(..., default=str)\<close>:
  a datetime is written as the string that \<open>str\<close> gives, the parameter \<open>str_of\<close>, and
  \<open>json.load\<close> reads a string. \<open>files\<close> is what the three files hold, as
  \<open>json.load\<close> gives it back. \<open>_load_knowledge_graph\<close> takes the graph, the entity
  map and the two indexes from the files when \<open>knowledge_graph.json\<close> exists; the
  relation map is not on disk and stays empty. \<open>knowledge_graph_init\<close> is the
  constructor of \<open>KnowledgeGraph\<close>: an empty store, then the load.
\<close>

record files =
  graph_json :: graph
  entities_json :: "(string \<times> entity) list"
  type_index_json :: "(string \<times> string list) list"
  attribute_index_json :: "(string \<times> (string \<times> string list) list) list"

definition json_stamp :: "(datetime \<Rightarrow> string) \<Rightarrow> stamp \<Rightarrow> stamp" where
  "json_stamp str_of t = (case t of Instant d \<Rightarrow> Text (str_of d) | Text x \<Rightarrow> Text x)"

definition json_entity :: "(datetime \<Rightarrow> string) \<Rightarrow> entity \<Rightarrow> entity" where
  "json_entity str_of e =
     e\<lparr>e_created_at := json_stamp str_of (e_created_at e),
       e_last_accessed := json_stamp str_of (e_last_accessed e)\<rparr>"

definition json_relation :: "(datetime \<Rightarrow> string) \<Rightarrow> relation \<Rightarrow> relation" where
  "json_relation str_of r = r\<lparr>r_created_at := json_stamp str_of (r_created_at r)\<rparr>"

definition save_knowledge_graph :: "(datetime \<Rightarrow> string) \<Rightarrow> store \<Rightarrow> files" where
  "save_knowledge_graph str_of s =
     \<lparr>graph_json =
        \<lparr>g_nodes = map (\<lambda>(n, a). (n, map_option (json_entity str_of) a)) (g_nodes (graph s)),
         g_edges = map (\<lambda>(k, r). (k, json_relation str_of r)) (g_edges (graph s))\<rparr>,
      entities_json = map (\<lambda>(k, e). (k, json_entity str_of e)) (entities s),
      type_index_json = dict_of py_list (type_index s),
      attribute_index_json = dict_of (dict_of py_list) (attribute_index s)\<rparr>"

definition load_knowledge_graph :: "files option \<Rightarrow> store \<Rightarrow> store" where
  "load_knowledge_graph disk s =
     (case disk of
        None \<Rightarrow> s
      | Some f \<Rightarrow>
          s\<lparr>graph := graph_json f,
            entities := entities_json f,
            type_index := dict_of py_set (type_index_json f),
            attribute_index := dict_of (dict_of py_set) (attribute_index_json f)\<rparr>)"

definition knowledge_graph_init :: "int \<Rightarrow> int \<Rightarrow> datetime \<Rightarrow> files option \<Rightarrow> store" where
  "knowledge_graph_init me mr now disk = load_knowledge_graph disk (new_store me mr now)"

section \<open>Reasoning engine (agent/knowledge/reasoning_engine.py)\<close>

record rule =
  ru_id :: string
  ru_name :: string
  ru_premises :: "string list"
  ru_conclusion :: string
  ru_confidence :: rat
  ru_type :: string

record rule_data =
  rud_id :: "string option"
  rud_name :: "string option"
  rud_premises :: "string list option"
  rud_conclusion :: "string option"
  rud_confidence :: "rat option"
  rud_type :: "string option"

record engine =
  knowledge_graph :: store
  reasoning_rules :: "rule list"
  inference_cache :: "(string \<times> result list) list"

definition new_engine :: "store \<Rightarrow> engine" where
  "new_engine kg = \<lparr>knowledge_graph = kg, reasoning_rules = [], inference_cache = []\<rparr>"

definition add_rule :: "string \<Rightarrow> rule_data \<Rightarrow> engine \<Rightarrow> engine" where
  "add_rule ts r eng =
     (let rule_data = \<lparr>ru_id = get_or (rud_id r) (''rule_'' @ ts),
                       ru_name = get_or (rud_name r) '''',
                       ru_premises = get_or (rud_premises r) [],
                       ru_conclusion = get_or (rud_conclusion r) '''',
                       ru_confidence = get_or (rud_confidence r) 1,
                       ru_type = get_or (rud_type r) ''forward''\<rparr>
      in eng\<lparr>reasoning_rules := reasoning_rules eng @ [rule_data]\<rparr>)"

text \<open>\<open>str(n)\<close> for an integer: decimal digits, a minus sign for a negative one.\<close>

fun str_nat :: "nat \<Rightarrow> string" where
  "str_nat n =
     (if n < 10 then [char_of (48 + n)] else str_nat (n div 10) @ [char_of (48 + n mod 10)])"

declare str_nat.simps [simp del]

definition str_int :: "int \<Rightarrow> string" where
  "str_int i = (if i < 0 then CHR ''-'' # str_nat (nat (- i)) else str_nat (nat i))"

definition apply_rule :: "string \<Rightarrow> rule \<Rightarrow> result list \<Rightarrow> result list" where
  "apply_rule query_lower rule results =
     (let premises_match =
            list_ex (\<lambda>premise. str_in (lower premise) query_lower) (ru_premises rule)
      in if premises_match
         then results @
                [RuleInference
                   \<lparr>i_id = ''inference_'' @ ru_id rule,
                    i_type = ''inference'',
                    i_content = ru_conclusion rule,
                    i_rule_applied = ru_name rule,
                    i_confidence = ru_confidence rule,
                    i_relevance = 7 / 10,
                    i_reasoning_type = ''rule_based''\<rparr>]
         else results)"

definition apply_rules :: "string \<Rightarrow> engine \<Rightarrow> result list" where
  "apply_rules query_text eng =
     (let query_lower = lower query_text
      in fold (apply_rule query_lower) (reasoning_rules eng) [])"

definition related_inference :: "result \<Rightarrow> string \<Rightarrow> related \<Rightarrow> result" where
  "related_inference entity_result entity_id rl =
     GraphInference
       \<lparr>gi_id = ''graph_inference_'' @ entity_id @ ''_'' @ e_id (rel_entity rl),
        gi_type = ''graph_inference'',
        gi_content = get_or (result_name entity_result) ''Entity'' @ '' is related to '' @
                     e_name (rel_entity rl),
        gi_source_entity = get_or (result_name entity_result) '''',
        gi_target_entity = e_name (rel_entity rl),
        gi_relationship_strength = relationship_strength rl,
        gi_relationship_distance = relationship_distance rl,
        gi_confidence = relationship_strength rl,
        gi_relevance = relationship_strength rl * (4 / 5),
        gi_reasoning_type = ''graph_based''\<rparr>"

fun graph_loop ::
  "datetime \<Rightarrow> int \<Rightarrow> result list \<Rightarrow> result list \<Rightarrow> store \<Rightarrow> result list outcome \<times> store"
  where
  "graph_loop now max_depth [] results s = (Returned results, s)"
| "graph_loop now max_depth (entity_result # rest) results s =
     (if result_type entity_result = ''entity''
      then let entity_id = result_id entity_result
           in (case find_related_entities now entity_id None max_depth s of
                 (Raised e, s') \<Rightarrow> (Raised e, s')
               | (Returned related_entities, s') \<Rightarrow>
                   graph_loop now max_depth rest
                     (results @
                        map (related_inference entity_result entity_id) related_entities)
                     s')
      else graph_loop now max_depth rest results s)"

definition graph_reasoning ::
  "datetime \<Rightarrow> string \<Rightarrow> int \<Rightarrow> store \<Rightarrow> result list outcome \<times> store" where
  "graph_reasoning now query_text max_depth s =
     (let query_lower = lower query_text;
          query_results = query query_lower 10 s
      in graph_loop now max_depth query_results [] s)"

fun unique_loop :: "result list \<Rightarrow> result list \<Rightarrow> string list \<Rightarrow> result list" where
  "unique_loop [] unique_results seen_ids = unique_results"
| "unique_loop (r # results) unique_results seen_ids =
     (if result_id r \<notin> set seen_ids
      then unique_loop results (unique_results @ [r]) (set_add (result_id r) seen_ids)
      else unique_loop results unique_results seen_ids)"

definition infer :: "datetime \<Rightarrow> string \<Rightarrow> int \<Rightarrow> engine \<Rightarrow> result list outcome \<times> engine" where
  "infer now query_text max_depth eng =
     (let cache_key = query_text @ ''_'' @ str_int max_depth
      in case map_of (inference_cache eng) cache_key of
           Some cached \<Rightarrow> (Returned cached, eng)
         | None \<Rightarrow>
             (let direct_results = query query_text 10 (knowledge_graph eng);
                  rule_results = apply_rules query_text eng
              in case graph_reasoning now query_text max_depth (knowledge_graph eng) of
                   (Raised e, kg) \<Rightarrow> (Raised e, eng\<lparr>knowledge_graph := kg\<rparr>)
                 | (Returned graph_results, kg) \<Rightarrow>
                     (let results = direct_results @ rule_results @ graph_results;
                          unique_results = sort_desc relevance (unique_loop results [] [])
                      in (Returned (slice_to 10 unique_results),
                          eng\<lparr>knowledge_graph := kg,
                              inference_cache :=
                                AList.update cache_key (slice_to 10 unique_results)
                                  (inference_cache eng)\<rparr>))))"

text \<open>
  What may happen to an engine between two calls of \<open>infer\<close>: the graph store is changed
  in any way, a rule is added, or \<open>infer\<close> is called with any arguments.
\<close>

inductive engine_step :: "engine \<Rightarrow> engine \<Rightarrow> bool" where
  graph_mutation: "engine_step eng (eng\<lparr>knowledge_graph := kg\<rparr>)"
| rule_addition: "engine_step eng (add_rule ts r eng)"
| inference: "engine_step eng (snd (infer now query_text max_depth eng))"

section \<open>The relevance ranking as the specification words it\<close>

text \<open>
  The text is a case-insensitive substring of a string; the score of an entity and of a
  relation as sums of the contributions the specification lists; the matching results,
  entities first and relations after them, each in the order of its map.
\<close>

definition contains_ci :: "string \<Rightarrow> string \<Rightarrow> bool" where
  "contains_ci text str = sublist (lower text) (lower str)"

definition entity_score :: "string \<Rightarrow> entity \<Rightarrow> rat" where
  "entity_score text e =
     (if contains_ci text (e_name e) then 1 else 0)
     + (if contains_ci text (e_description e) then 4 / 5 else 0)
     + (1 / 2) * of_nat (length (filter (contains_ci text) (map snd (e_attributes e))))
     + (if contains_ci text (e_type e) then 3 / 10 else 0)
     + e_importance e * (3 / 10)"

definition relation_score :: "string \<Rightarrow> relation \<Rightarrow> rat" where
  "relation_score text r =
     (if contains_ci text (r_type r) then 4 / 5 else 0) + r_importance r * (1 / 5)"

definition entity_matches :: "string \<Rightarrow> store \<Rightarrow> result list" where
  "entity_matches text s =
     map (\<lambda>(k, e). EntityResult (e\<lparr>e_type := ''entity''\<rparr>) (entity_score text e))
       (filter (\<lambda>(k, e). 0 < entity_score text e) (entities s))"

definition relation_matches :: "string \<Rightarrow> store \<Rightarrow> result list" where
  "relation_matches text s =
     map (\<lambda>(k, r). RelationResult (r\<lparr>r_type := ''relation''\<rparr>)
                      (entity_name_or_unknown s (r_source r))
                      (entity_name_or_unknown s (r_target r)) (relation_score text r))
       (filter (\<lambda>(k, r). 0 < relation_score text r) (relations s))"

definition descending :: "result list \<Rightarrow> bool" where
  "descending rs = sorted_wrt (\<lambda>x y. relevance y \<le> relevance x) rs"

section \<open>Dictionaries and sets as lists\<close>

text \<open>
  A Python dictionary has one entry per key and a Python set holds an element once. This
  is what \<open>one_entry_per_key\<close> says of the lists that stand for the maps and the index
  sets of a store.
\<close>

definition one_entry_per_key :: "store \<Rightarrow> bool" where
  "one_entry_per_key s =
     (distinct (map fst (entities s))
      \<and> distinct (map fst (relations s))
      \<and> distinct (map fst (type_index s))
      \<and> list_all (\<lambda>(t, ids). distinct ids) (type_index s)
      \<and> distinct (map fst (attribute_index s))
      \<and> list_all (\<lambda>(a, by_value).
            distinct (map fst by_value) \<and> list_all (\<lambda>(v, ids). distinct ids) by_value)
          (attribute_index s))"

text \<open>A rendering of instants and its parser, to run the export and the import on.\<close>

definition tally :: "datetime \<Rightarrow> string" where
  "tally d = replicate d (CHR ''I'')"

definition from_tally :: "string \<Rightarrow> datetime option" where
  "from_tally str = (if list_all (\<lambda>c. c = CHR ''I'') str then Some (length str) else None)"

text \<open>
  Every timestamp of the entity map and of the relation map is a datetime object, as
  \<open>add_entity\<close>, \<open>add_relation\<close>, \<open>get_entity\<close> and \<open>from_dict\<close> store them.
\<close>

definition is_instant :: "stamp \<Rightarrow> bool" where
  "is_instant t = (case t of Instant d \<Rightarrow> True | Text x \<Rightarrow> False)"

definition stamps_are_datetimes :: "store \<Rightarrow> bool" where
  "stamps_are_datetimes s =
     (list_all (\<lambda>(k, e). is_instant (e_created_at e) \<and> is_instant (e_last_accessed e))
        (entities s)
      \<and> list_all (\<lambda>(k, r). is_instant (r_created_at r)) (relations s))"

definition stamp_text :: "(datetime \<Rightarrow> string) \<Rightarrow> stamp \<Rightarrow> string" where
  "stamp_text isoformat t = (case t of Instant d \<Rightarrow> isoformat d | Text x \<Rightarrow> x)"

section \<open>What a read does to the store\<close>

text \<open>
  \<open>accessed now e\<close> is the entity \<open>e\<close> after one \<open>get_entity\<close>. Two entities are
  \<open>same_but_access\<close> when they agree in every field but \<open>last_accessed\<close> and
  \<open>access_count\<close>. A store \<open>s'\<close> differs from \<open>s\<close> by \<open>only_access_changed\<close>
  when it has the same configuration, relations, graph, indexes and times, and its entity
  map has the same ids in the same order, each entity the same but for the two access
  fields.
\<close>

definition accessed :: "datetime \<Rightarrow> entity \<Rightarrow> entity" where
  "accessed now e =
     e\<lparr>e_last_accessed := Instant now, e_access_count := e_access_count e + 1\<rparr>"

definition same_but_access :: "entity \<Rightarrow> entity \<Rightarrow> bool" where
  "same_but_access e e' =
     (e'\<lparr>e_last_accessed := e_last_accessed e, e_access_count := e_access_count e\<rparr> = e)"

definition only_access_changed :: "store \<Rightarrow> store \<Rightarrow> bool" where
  "only_access_changed s s' =
     (s' = s\<lparr>entities := entities s'\<rparr>
      \<and> list_all2 (\<lambda>(k, e) (k', e'). k' = k \<and> same_but_access e e')
            (entities s) (entities s'))"

text \<open>
  \<open>fetched_from now s s' k r\<close>: the record \<open>r\<close> is what \<open>get_entity\<close> returned for
  the id \<open>k\<close>, namely the entity that \<open>s\<close> stores under \<open>k\<close> after one access, and
  this is also what \<open>s'\<close> stores under \<open>k\<close>.
\<close>

definition fetched_from :: "datetime \<Rightarrow> store \<Rightarrow> store \<Rightarrow> string \<Rightarrow> entity \<Rightarrow> bool" where
  "fetched_from now s s' k r =
     (case map_of (entities s) k of
        None \<Rightarrow> False
      | Some e \<Rightarrow> r = accessed now e \<and> map_of (entities s') k = Some (accessed now e))"

text \<open>
  \<open>traversed now a s s' lengths r\<close>: the traversal result \<open>r\<close> was fetched for an id
  \<open>k \<noteq> a\<close> that \<open>lengths\<close> lists with distance \<open>d\<close>, and carries that distance
  and the strength \<open>1 / (d + 1)\<close>.
\<close>

definition traversed ::
  "datetime \<Rightarrow> string \<Rightarrow> store \<Rightarrow> store \<Rightarrow> (string \<times> int) list \<Rightarrow> related \<Rightarrow> bool" where
  "traversed now a s s' lengths r =
     list_ex (\<lambda>(k, d). k \<noteq> a \<and> fetched_from now s s' k (rel_entity r)
                \<and> relationship_distance r = d
                \<and> relationship_strength r = 1 / (of_int d + 1)) lengths"

section \<open>Example stores\<close>

definition entity_payload :: "string \<Rightarrow> string \<Rightarrow> rat \<Rightarrow> entity_data" where
  "entity_payload i ty imp =
     \<lparr>d_id = Some i, d_name = Some i, d_type = Some ty, d_attributes = None,
      d_description = None, d_importance = Some imp, d_confidence = None\<rparr>"

definition relation_payload :: "string option \<Rightarrow> string option \<Rightarrow> bool \<Rightarrow> relation_data" where
  "relation_payload a b bi =
     \<lparr>rd_source = a, rd_target = b, rd_type = Some ''owns'', rd_attributes = None,
      rd_importance = None, rd_confidence = None, rd_bidirectional = Some bi\<rparr>"

text \<open>
  A store for two entities and one relation, filled to both capacities: entity \<open>a\<close> of
  importance 0.1, entity \<open>b\<close> of importance 0.9, and in \<open>linked\<close> a bidirectional
  relation from \<open>a\<close> to \<open>b\<close>.
\<close>

definition two_entities :: store where
  "two_entities =
     snd (add_entity 2 ''2.0'' (entity_payload ''b'' ''T'' (9 / 10))
       (snd (add_entity 1 ''1.0'' (entity_payload ''a'' ''T'' (1 / 10)) (new_store 2 1 0))))"

definition linked :: store where
  "linked =
     snd (add_relation 3 ''3.0'' (relation_payload (Some ''a'') (Some ''b'') True) two_entities)"

text \<open>
  An entity id inserted twice, first with type \<open>A\<close> and then with type \<open>B\<close>, and
  removed.
\<close>

definition reinserted :: store where
  "reinserted =
     snd (add_entity 2 ''2.0'' (entity_payload ''x'' ''B'' (1 / 2))
       (snd (add_entity 1 ''1.0'' (entity_payload ''x'' ''A'' (1 / 2)) (new_store 10 10 0))))"

definition reinserted_removed :: store where
  "reinserted_removed = snd (remove_entity 3 ''x'' reinserted)"

text \<open>
  The store of the ranking scenario: an entity named \<open>Python\<close> of importance 0.9 and an
  unrelated entity of importance 0.1, with a relation between them.
\<close>

definition python_store :: store where
  "python_store =
     snd (add_relation 3 ''3.0''
            \<lparr>rd_source = Some ''e1'', rd_target = Some ''e2'', rd_type = Some ''Python binding'',
             rd_attributes = None, rd_importance = Some (1 / 2), rd_confidence = None,
             rd_bidirectional = None\<rparr>
       (snd (add_entity 2 ''2.0''
               \<lparr>d_id = Some ''e2'', d_name = Some ''Rust'', d_type = Some ''language'',
                d_attributes = Some [(''typing'', ''static'')],
                d_description = Some ''A systems language'',
                d_importance = Some (1 / 10), d_confidence = None\<rparr>
          (snd (add_entity 1 ''1.0''
                  \<lparr>d_id = Some ''e1'', d_name = Some ''Python'', d_type = Some ''language'',
                   d_attributes = Some [(''typing'', ''dynamic''), (''runtime'', ''CPython'')],
                   d_description = Some ''Python is a programming language'',
                   d_importance = Some (9 / 10), d_confidence = None\<rparr>
             (new_store 100 100 0))))))"

definition python_result :: entity where
  "python_result =
     \<lparr>e_id = ''e1'', e_name = ''Python'', e_type = ''entity'',
      e_attributes = [(''typing'', ''dynamic''), (''runtime'', ''CPython'')],
      e_description = ''Python is a programming language'', e_importance = 9 / 10,
      e_created_at = Instant 1, e_last_accessed = Instant 1, e_access_count = 0,
      e_confidence = 1\<rparr>"

text \<open>
  A chain \<open>x \<rightarrow> y \<rightarrow> z\<close> of three entities, and the entity that the chain stores under
  \<open>y\<close>.
\<close>

definition chain_store :: store where
  "chain_store =
     snd (add_relation 5 ''5.0'' (relation_payload (Some ''y'') (Some ''z'') False)
       (snd (add_relation 4 ''4.0'' (relation_payload (Some ''x'') (Some ''y'') False)
          (snd (add_entity 3 ''3.0'' (entity_payload ''z'' ''T'' (1 / 2))
             (snd (add_entity 2 ''2.0'' (entity_payload ''y'' ''T'' (1 / 2))
                (snd (add_entity 1 ''1.0'' (entity_payload ''x'' ''T'' (1 / 2))
                   (new_store 10 10 0))))))))))"

definition chain_y :: entity where
  "chain_y =
     \<lparr>e_id = ''y'', e_name = ''y'', e_type = ''T'', e_attributes = [], e_description = '''',
      e_importance = 1 / 2, e_created_at = Instant 2, e_last_accessed = Instant 2,
      e_access_count = 0,
      e_confidence = 1\<rparr>"

text \<open>
  An engine over \<open>python_store\<close> with one rule; the list its first inference for
  \<open>python\<close> returns; and the engine after that inference, a further rule and the
  replacement of its graph store by \<open>chain_store\<close>.
\<close>

definition python_engine :: engine where
  "python_engine =
     add_rule ''1.0''
       \<lparr>rud_id = Some ''r1'', rud_name = Some ''scripting'', rud_premises = Some [''Python''],
        rud_conclusion = Some ''Python is interpreted'', rud_confidence = Some (9 / 10),
        rud_type = None\<rparr>
       (new_engine python_store)"

definition python_inferences :: "result list" where
  "python_inferences =
     (case fst (infer 9 ''python'' 3 python_engine) of Returned rs \<Rightarrow> rs | Raised e \<Rightarrow> [])"

definition python_engine_later :: engine where
  "python_engine_later =
     (add_rule ''2.0''
        \<lparr>rud_id = Some ''r2'', rud_name = Some ''typing'', rud_premises = Some [''python''],
         rud_conclusion = Some ''Python is dynamically typed'', rud_confidence = None,
         rud_type = None\<rparr>
        (snd (infer 9 ''python'' 3 python_engine)))\<lparr>knowledge_graph := chain_store\<rparr>"

text \<open>
  A store of capacity one that imported the two entities of \<open>two_entities\<close>:
  \<open>from_dict\<close> does not look at the capacity.
\<close>

definition overfull :: store where
  "overfull =
     (case to_dict tally two_entities of
        Returned data \<Rightarrow> snd (from_dict from_tally data (new_store 1 1 0))
      | Raised e \<Rightarrow> new_store 1 1 0)"

text \<open>
  The store of a second session: the constructor finds the files that the session of
  \<open>two_entities\<close> saved with its last insert.
\<close>

definition restored :: store where
  "restored = knowledge_graph_init 2 1 9 (Some (save_knowledge_graph tally two_entities))"

section \<open>Facts about the store operations\<close>

lemma min_by_in: "min_by f b xs \<in> set (b # xs)"
  by (induction xs arbitrary: b) (auto split: if_splits)

lemma min_by_le_best: "f (min_by f b xs) \<le> f b"
proof (induction xs arbitrary: b)
  case Nil
  show ?case by simp
next
  case (Cons x xs)
  show ?case using Cons.IH[of "if f x < f b then x else b"] by (auto split: if_splits)
qed

lemma min_by_least: "x \<in> set (b # xs) \<Longrightarrow> f (min_by f b xs) \<le> f x"
proof (induction xs arbitrary: b)
  case Nil
  then show ?case by simp
next
  case (Cons y ys)
  let ?b = "if f y < f b then y else b"
  have le: "f (min_by f ?b ys) \<le> f ?b" by (rule min_by_le_best)
  from Cons.prems consider "x = b" | "x = y" | "x \<in> set ys" by auto
  then show ?case
  proof cases
    case 1 then show ?thesis using le by (auto split: if_splits)
  next
    case 2 then show ?thesis using le by (auto split: if_splits)
  next
    case 3 then show ?thesis using Cons.IH[of ?b] by simp
  qed
qed

lemma length_update_fresh:
  "k \<notin> fst ` set al \<Longrightarrow> length (AList.update k v al) = Suc (length al)"
  by (induction al) auto

lemma length_delete_distinct:
  "distinct (map fst al) \<Longrightarrow> k \<in> fst ` set al \<Longrightarrow> Suc (length (AList.delete k al)) = length al"
  by (induction al) (auto simp: rev_image_eqI)

lemma keys_delete: "fst ` set (AList.delete k al) = fst ` set al - {k}"
  using delete_keys[of k al] by (metis list.set_map set_removeAll)

lemma edge_add_edge:
  "map_of (g_edges (add_edge u v k d g)) e =
     (if e = (u, v, k) then Some d else map_of (g_edges g) e)"
  by (auto simp: add_edge_def ensure_node_def Let_def update_conv')

lemma has_edge_remove_edge:
  "has_edge (remove_edge u v k g) u' v' k' = ((u', v', k') \<noteq> (u, v, k) \<and> has_edge g u' v' k')"
  by (auto simp: has_edge_def remove_edge_def delete_conv')

lemma remove_relation_entities [simp]:
  "entities (snd (remove_relation now k s)) = entities s"
  by (simp add: remove_relation_def Let_def split: option.splits)

lemma remove_relation_absent:
  "map_of (relations s) k = None \<Longrightarrow> map_of (relations (snd (remove_relation now j s))) k = None"
  by (simp add: remove_relation_def Let_def delete_conv' split: option.splits)

lemma remove_least_important_relation_entities [simp]:
  "entities (remove_least_important_relation now s) = entities s"
  by (simp add: remove_least_important_relation_def Let_def split: list.splits)

lemma remove_least_important_relation_absent:
  "map_of (relations s) k = None \<Longrightarrow>
   map_of (relations (remove_least_important_relation now s)) k = None"
  by (auto simp: remove_least_important_relation_def Let_def
      intro: remove_relation_absent split: list.splits)

lemma fold_remove_relation_entities [simp]:
  "entities (fold (\<lambda>k st. snd (remove_relation now k st)) ks s) = entities s"
  by (induction ks arbitrary: s) simp_all

lemma remove_entity_entities:
  "entities (snd (remove_entity now k s)) = AList.delete k (entities s)"
proof (cases "map_of (entities s) k")
  case None
  then have "k \<notin> fst ` set (entities s)" by (simp add: map_of_eq_None_iff)
  then show ?thesis using None by (simp add: remove_entity_def)
next
  case (Some e)
  then show ?thesis by (simp add: remove_entity_def Let_def)
qed

lemma update_entity_indexes_entities [simp]:
  "entities (update_entity_indexes k e s) = entities s"
  by (simp add: update_entity_indexes_def Let_def)

section \<open>Failed relation inserts\<close>

lemma add_relation_missing_endpoint:
  assumes "rd_source p = Some a" and "rd_target p = Some b"
    and "map_of (entities s) a = None \<or> map_of (entities s) b = None"
    and "int (length (relations s)) < max_relations s"
  shows "add_relation now ts p s =
           (Raised (ValueError ''Source or target entity does not exist''), s)"
  using assms by (auto simp: add_relation_def)

text \<open>
  Claim C1. A relation payload whose source is not a live entity makes \<open>add_relation\<close>
  raise, and the claim is that the store is then as it was, also at capacity. The capacity
  check of \<open>add_relation\<close> comes before the validation: in the store \<open>linked\<close>, which
  holds one relation and has room for one, the call with the unknown source \<open>zz\<close> raises
  the error after the stored relation was evicted, and the relation count went from 1 to 0.
\<close>

theorem add_relation_invalid_at_capacity_evicts:
  "length (relations linked) = 1
   \<and> max_relations linked \<le> int (length (relations linked))
   \<and> map_of (entities linked) ''zz'' = None
   \<and> fst (add_relation 4 ''4.0'' (relation_payload (Some ''zz'') (Some ''b'') False) linked)
       = Raised (ValueError ''Source or target entity does not exist'')
   \<and> length (relations (snd (add_relation 4 ''4.0''
         (relation_payload (Some ''zz'') (Some ''b'') False) linked))) = 0"
  by code_simp

section \<open>Index consistency\<close>

text \<open>
  Claim C4. After any sequence of inserts and removals, every id in an index is the id of
  a stored entity. Inserting the id \<open>x\<close> with type \<open>A\<close>, inserting \<open>x\<close> again with type
  \<open>B\<close> and removing \<open>x\<close> leaves \<open>x\<close> in the type index under \<open>A\<close>, with no entity
  \<open>x\<close> in the entity map: the second insert overwrites the entity and does not take the
  id out of the indexes of the overwritten one, and \<open>remove_entity\<close> discards the id
  only under the type and attributes of the entity it finds.
\<close>

theorem reinserted_id_stays_in_type_index:
  "map_of (entities reinserted_removed) ''x'' = None
   \<and> map_of (type_index reinserted_removed) ''A'' = Some [''x'']"
  by code_simp

section \<open>Bidirectional relations\<close>

text \<open>
  Claim C2, as stated: a bidirectional relation with id \<open>rid\<close> stores a second relation
  record \<open>reverse_<rid>\<close> beside the forward one, and \<open>remove_relation\<close> on either id
  removes both. In the store \<open>linked\<close> the bidirectional insert returned \<open>rel_3.0\<close>; the
  relation map holds that one record only, the reverse exists as a graph edge, and
  \<open>remove_relation\<close> on the reverse id returns false and leaves the store as it is.
\<close>

theorem reverse_id_is_no_relation_record:
  "fst (add_relation 3 ''3.0'' (relation_payload (Some ''a'') (Some ''b'') True) two_entities)
     = Returned ''rel_3.0''
   \<and> map fst (relations linked) = [''rel_3.0'']
   \<and> has_edge (graph linked) ''a'' ''b'' ''rel_3.0''
   \<and> has_edge (graph linked) ''b'' ''a'' ''reverse_rel_3.0''
   \<and> remove_relation 5 ''reverse_rel_3.0'' linked = (False, linked)"
  by code_simp

text \<open>
  Claim C2, amended. Inserting a bidirectional relation between two live entities \<open>a\<close>
  and \<open>b\<close> returns the id \<open>rel_<ts>\<close>, stores the forward record under that id in the
  relation map, and adds two graph edges: \<open>a \<rightarrow> b\<close> keyed by the id, carrying the forward
  record, and \<open>b \<rightarrow> a\<close> keyed \<open>reverse_<id>\<close>, carrying the forward record with the
  endpoints swapped and the id \<open>reverse_<id>\<close>. The reverse id names no record of the
  relation map (unless one was stored under it before), so \<open>remove_relation\<close> on it
  returns false and changes nothing; \<open>remove_relation\<close> on the forward id removes the
  record and both edges.
\<close>

theorem bidirectional_relation_pair:
  assumes src: "rd_source p = Some a" and tgt: "rd_target p = Some b"
    and bi: "rd_bidirectional p = Some True"
    and live: "map_of (entities s) a \<noteq> None" "map_of (entities s) b \<noteq> None"
  shows "\<exists>fwd s1. add_relation now ts p s = (Returned (''rel_'' @ ts), s1)
     \<and> r_id fwd = ''rel_'' @ ts \<and> r_source fwd = a \<and> r_target fwd = b
     \<and> map_of (relations s1) (''rel_'' @ ts) = Some fwd
     \<and> map_of (g_edges (graph s1)) (a, b, ''rel_'' @ ts) = Some fwd
     \<and> map_of (g_edges (graph s1)) (b, a, ''reverse_'' @ ''rel_'' @ ts)
         = Some (fwd\<lparr>r_source := b, r_target := a, r_id := ''reverse_'' @ ''rel_'' @ ts\<rparr>)
     \<and> (map_of (relations s) (''reverse_'' @ ''rel_'' @ ts) = None \<longrightarrow>
          map_of (relations s1) (''reverse_'' @ ''rel_'' @ ts) = None
          \<and> remove_relation now' (''reverse_'' @ ''rel_'' @ ts) s1 = (False, s1))
     \<and> (\<exists>s2. remove_relation now' (''rel_'' @ ts) s1 = (True, s2)
          \<and> map_of (relations s2) (''rel_'' @ ts) = None
          \<and> \<not> has_edge (graph s2) a b (''rel_'' @ ts)
          \<and> \<not> has_edge (graph s2) b a (''reverse_'' @ ''rel_'' @ ts))"
proof -
  define s0 where "s0 = (if int (length (relations s)) \<ge> max_relations s
                then remove_least_important_relation now s else s)"
  have ents: "entities s0 = entities s" by (simp add: s0_def)
  have absent: "map_of (relations s) k = None \<Longrightarrow> map_of (relations s0) k = None" for k
    by (simp add: s0_def remove_least_important_relation_absent)
  define fwd :: relation where "fwd = \<lparr>r_id = ''rel_'' @ ts, r_source = a, r_target = b,
       r_type = get_or (rd_type p) ''related_to'',
       r_attributes = get_or (rd_attributes p) [],
       r_importance = get_or (rd_importance p) (1 / 2),
       r_confidence = get_or (rd_confidence p) 1,
       r_created_at = Instant now, r_bidirectional = True\<rparr>"
  define rev where
    "rev = fwd\<lparr>r_source := b, r_target := a, r_id := ''reverse_'' @ ''rel_'' @ ts\<rparr>"
  define s1 where "s1 = s0\<lparr>relations := AList.update (''rel_'' @ ts) fwd (relations s0),
      graph := add_edge b a (''reverse_'' @ ''rel_'' @ ts) rev
                 (add_edge a b (''rel_'' @ ts) fwd (graph s0)),
      last_updated := now\<rparr>"
  have run: "add_relation now ts p s = (Returned (''rel_'' @ ts), s1)"
    using src tgt bi live
    by (simp add: add_relation_def Let_def s0_def[symmetric] ents s1_def fwd_def rev_def
        get_or_def)
  have f1: "map_of (relations s1) (''rel_'' @ ts) = Some fwd"
    by (simp add: s1_def update_conv')
  have f2: "map_of (g_edges (graph s1)) (a, b, ''rel_'' @ ts) = Some fwd"
    by (simp add: s1_def edge_add_edge)
  have f3: "map_of (g_edges (graph s1)) (b, a, ''reverse_'' @ ''rel_'' @ ts) = Some rev"
    by (simp add: s1_def edge_add_edge)
  have f4: "map_of (relations s1) (''reverse_'' @ ''rel_'' @ ts) = None
      \<and> remove_relation now' (''reverse_'' @ ''rel_'' @ ts) s1 = (False, s1)"
    if "map_of (relations s) (''reverse_'' @ ''rel_'' @ ts) = None"
  proof -
    have "map_of (relations s1) (''reverse_'' @ ''rel_'' @ ts) = None"
      using absent[OF that] by (simp add: s1_def update_conv')
    then show ?thesis by (simp add: remove_relation_def)
  qed
  define s2 where "s2 = snd (remove_relation now' (''rel_'' @ ts) s1)"
  have f5: "remove_relation now' (''rel_'' @ ts) s1 = (True, s2)"
    using f1 by (simp add: s2_def remove_relation_def Let_def)
  have f6: "map_of (relations s2) (''rel_'' @ ts) = None"
    using f1 by (simp add: s2_def remove_relation_def Let_def delete_conv')
  have e1: "has_edge (graph s1) a b (''rel_'' @ ts)" using f2 by (simp add: has_edge_def)
  have f7: "\<not> has_edge (graph s2) a b (''rel_'' @ ts)"
    using f1 e1 by (simp add: s2_def remove_relation_def Let_def has_edge_remove_edge fwd_def)
  have f8: "\<not> has_edge (graph s2) b a (''reverse_'' @ ''rel_'' @ ts)"
    using f1 e1 by (simp add: s2_def remove_relation_def Let_def has_edge_remove_edge fwd_def)
  show ?thesis
    using run f1 f2 f3 f4 f5 f6 f7 f8 unfolding rev_def
    by (intro exI[of _ fwd] exI[of _ s1]) (auto simp: fwd_def)
qed

theorem bidirectional_relation_pair_witness:
  "rd_source (relation_payload (Some ''a'') (Some ''b'') True) = Some ''a''
   \<and> rd_target (relation_payload (Some ''a'') (Some ''b'') True) = Some ''b''
   \<and> rd_bidirectional (relation_payload (Some ''a'') (Some ''b'') True) = Some True
   \<and> map_of (entities two_entities) ''a'' \<noteq> None
   \<and> map_of (entities two_entities) ''b'' \<noteq> None
   \<and> (\<exists>fwd s1.
         add_relation 3 ''3.0'' (relation_payload (Some ''a'') (Some ''b'') True) two_entities
           = (Returned ''rel_3.0'', s1)
         \<and> map_of (relations s1) ''rel_3.0'' = Some fwd
         \<and> map_of (g_edges (graph s1)) (''b'', ''a'', ''reverse_rel_3.0'')
             = Some (fwd\<lparr>r_source := ''b'', r_target := ''a'', r_id := ''reverse_rel_3.0''\<rparr>)
         \<and> (\<exists>s2. remove_relation 5 ''rel_3.0'' s1 = (True, s2)
               \<and> map_of (relations s2) ''rel_3.0'' = None
               \<and> \<not> has_edge (graph s2) ''a'' ''b'' ''rel_3.0''
               \<and> \<not> has_edge (graph s2) ''b'' ''a'' ''reverse_rel_3.0''))"
proof -
  let ?p = "relation_payload (Some ''a'') (Some ''b'') True"
  have h1: "rd_source ?p = Some ''a''" by (simp add: relation_payload_def)
  have h2: "rd_target ?p = Some ''b''" by (simp add: relation_payload_def)
  have h3: "rd_bidirectional ?p = Some True" by (simp add: relation_payload_def)
  have h4: "map_of (entities two_entities) ''a'' \<noteq> None" by code_simp
  have h5: "map_of (entities two_entities) ''b'' \<noteq> None" by code_simp
  from bidirectional_relation_pair[OF h1 h2 h3 h4 h5, of 3 "''3.0''" 5]
  obtain fwd s1 where
    "add_relation 3 ''3.0'' ?p two_entities = (Returned (''rel_'' @ ''3.0''), s1)"
    "map_of (relations s1) (''rel_'' @ ''3.0'') = Some fwd"
    "map_of (g_edges (graph s1)) (''b'', ''a'', ''reverse_'' @ ''rel_'' @ ''3.0'')
       = Some (fwd\<lparr>r_source := ''b'', r_target := ''a'',
                    r_id := ''reverse_'' @ ''rel_'' @ ''3.0''\<rparr>)"
    "\<exists>s2. remove_relation 5 (''rel_'' @ ''3.0'') s1 = (True, s2)
          \<and> map_of (relations s2) (''rel_'' @ ''3.0'') = None
          \<and> \<not> has_edge (graph s2) ''a'' ''b'' (''rel_'' @ ''3.0'')
          \<and> \<not> has_edge (graph s2) ''b'' ''a'' (''reverse_'' @ ''rel_'' @ ''3.0'')"
    by blast
  then show ?thesis using h1 h2 h3 h4 h5 by simp
qed

section \<open>Eviction on insert\<close>

lemma add_entity_existing_id_shrinks:
  "max_entities two_entities = 2
   \<and> length (entities two_entities) = 2
   \<and> map fst (entities (snd (add_entity 4 ''4.0'' (entity_payload ''b'' ''U'' (1 / 2))
        two_entities))) = [''b'']"
  by code_simp

text \<open>
  Claim C3, as stated: when the entity count is at least \<open>max_entities\<close>, \<open>add_entity\<close>
  evicts one entity and the count after the insert equals \<open>max_entities\<close>. The store
  \<open>overfull\<close> has capacity one and holds the two entities \<open>a\<close> and \<open>b\<close>.
  Inserting \<open>c\<close> evicts \<open>a\<close>, the one eviction of the call, and stores \<open>c\<close>: two
  entities are held afterwards, not one.
\<close>

theorem add_entity_above_capacity_stays_above:
  "max_entities overfull = 1
   \<and> map fst (entities overfull) = [''a'', ''b'']
   \<and> map fst (entities (snd (add_entity 4 ''4.0'' (entity_payload ''c'' ''T'' (1 / 2))
        overfull))) = [''b'', ''c'']
   \<and> int (length (entities (snd (add_entity 4 ''4.0'' (entity_payload ''c'' ''T'' (1 / 2))
        overfull)))) \<noteq> max_entities overfull"
  by code_simp

text \<open>
  Claim C3, amended. In a store that holds at least one entity and at least
  \<open>max_entities\<close> of them, \<open>add_entity\<close> first evicts exactly one entity, one whose
  weight importance \<times> (1 + 0.1 \<times> access_count) no stored entity undercuts, and then stores
  the new entity: the ids afterwards are the ids before, without the victim and with the
  new id. When the new id is not the id of an entity that remains after the eviction, the
  entity count after the insert is the count before it, which is \<open>max_entities\<close> when the
  store was exactly full. (The entity map has one entry per id.)
\<close>

theorem add_entity_at_capacity:
  assumes dist: "distinct (map fst (entities s))"
    and nonempty: "entities s \<noteq> []"
    and full: "max_entities s \<le> int (length (entities s))"
  shows "\<exists>victim e. map_of (entities s) victim = Some e
     \<and> (\<forall>(k, e') \<in> set (entities s). entity_weight e \<le> entity_weight e')
     \<and> fst ` set (entities (snd (add_entity now ts p s)))
         = insert (fst (add_entity now ts p s)) (fst ` set (entities s) - {victim})
     \<and> (fst (add_entity now ts p s) \<notin> fst ` set (entities s) - {victim} \<longrightarrow>
          length (entities (snd (add_entity now ts p s))) = length (entities s)
          \<and> (int (length (entities s)) = max_entities s \<longrightarrow>
               int (length (entities (snd (add_entity now ts p s)))) = max_entities s))"
proof -
  from nonempty obtain kv kvs where split: "entities s = kv # kvs"
    by (cases "entities s") auto
  define m where "m = min_by (\<lambda>(eid, e). entity_weight e) kv kvs"
  define victim where "victim = fst m"
  have m_in: "m \<in> set (entities s)" using min_by_in[of _ kv kvs] by (simp add: m_def split)
  then have look: "map_of (entities s) victim = Some (snd m)"
    using dist by (simp add: victim_def)
  have least: "\<forall>(k, e') \<in> set (entities s). entity_weight (snd m) \<le> entity_weight e'"
  proof (clarify)
    fix k e' assume "(k, e') \<in> set (entities s)"
    then have "(k, e') \<in> set (kv # kvs)" by (simp add: split)
    from min_by_least[OF this, of "\<lambda>(eid, e). entity_weight e"]
    show "entity_weight (snd m) \<le> entity_weight e'"
      by (simp add: m_def case_prod_beta)
  qed
  define s1 where "s1 = remove_least_important_entity now s"
  have s1_ents: "entities s1 = AList.delete victim (entities s)"
    by (simp add: s1_def remove_least_important_entity_def split Let_def
        remove_entity_entities victim_def m_def)
  define nid where "nid = fst (add_entity now ts p s)"
  obtain ne where
    after: "entities (snd (add_entity now ts p s)) = AList.update nid ne (entities s1)"
    using full by (simp add: add_entity_def Let_def s1_def nid_def)
  have keys: "fst ` set (entities (snd (add_entity now ts p s)))
         = insert nid (fst ` set (entities s) - {victim})"
    by (simp add: after dom_update s1_ents keys_delete)
  have vin: "victim \<in> fst ` set (entities s)" using m_in by (auto simp: victim_def)
  have len: "length (entities (snd (add_entity now ts p s))) = length (entities s)"
    if "nid \<notin> fst ` set (entities s) - {victim}"
  proof -
    have "nid \<notin> fst ` set (entities s1)" using that by (simp add: s1_ents keys_delete)
    then have "length (entities (snd (add_entity now ts p s))) = Suc (length (entities s1))"
      by (simp add: after length_update_fresh)
    also have "\<dots> = length (entities s)"
      using length_delete_distinct[OF dist vin] by (simp add: s1_ents)
    finally show ?thesis .
  qed
  show ?thesis
    using look least keys len unfolding nid_def
    by (intro exI[of _ victim] exI[of _ "snd m"]) auto
qed

theorem add_entity_at_capacity_witness:
  "distinct (map fst (entities two_entities))
   \<and> entities two_entities \<noteq> []
   \<and> max_entities two_entities \<le> int (length (entities two_entities))
   \<and> (\<exists>victim e. map_of (entities two_entities) victim = Some e
        \<and> fst ` set (entities (snd (add_entity 4 ''4.0'' (entity_payload ''c'' ''T'' (1 / 2))
                                      two_entities)))
            = insert (fst (add_entity 4 ''4.0'' (entity_payload ''c'' ''T'' (1 / 2))
                        two_entities))
                (fst ` set (entities two_entities) - {victim}))
   \<and> map fst (entities (snd (add_entity 4 ''4.0'' (entity_payload ''c'' ''T'' (1 / 2))
        two_entities))) = [''b'', ''c'']"
proof -
  have h1: "distinct (map fst (entities two_entities))" by code_simp
  have h2: "entities two_entities \<noteq> []" by code_simp
  have h3: "max_entities two_entities \<le> int (length (entities two_entities))" by code_simp
  have c: "map fst (entities (snd (add_entity 4 ''4.0'' (entity_payload ''c'' ''T'' (1 / 2))
        two_entities))) = [''b'', ''c'']" by code_simp
  from add_entity_at_capacity[OF h1 h2 h3, of 4 "''4.0''" "entity_payload ''c'' ''T'' (1 / 2)"]
  show ?thesis using h1 h2 h3 c by blast
qed

section \<open>Query engine: scores, ranking, result records\<close>

lemma str_in_sublist: "str_in q str = sublist q str"
  by (induction str) (auto simp: sublist_Cons_right)

lemma fold_count:
  "fold (\<lambda>v r. if P v then r + c else r) vs (r0::rat) = r0 + c * of_nat (length (filter P vs))"
  by (induction vs arbitrary: r0) (auto simp: algebra_simps)

lemma entity_relevance_score: "entity_relevance (lower text) e = entity_score text e"
  by (simp add: entity_relevance_def entity_score_def contains_ci_def str_in_sublist
      fold_count Let_def filter_map comp_def)

lemma relation_relevance_score: "relation_relevance (lower text) r = relation_score text r"
  by (simp add: relation_relevance_def relation_score_def contains_ci_def str_in_sublist Let_def)

lemma fold_search_entity:
  "fold (search_entity (lower text)) es acc =
     acc @ map (\<lambda>(k, e). EntityResult (e\<lparr>e_type := ''entity''\<rparr>) (entity_score text e))
             (filter (\<lambda>(k, e). 0 < entity_score text e) es)"
  by (induction es arbitrary: acc)
     (auto simp: search_entity_def entity_relevance_score Let_def)

lemma fold_search_relation:
  "fold (search_relation s (lower text)) rs acc =
     acc @ map (\<lambda>(k, r). RelationResult (r\<lparr>r_type := ''relation''\<rparr>)
                      (entity_name_or_unknown s (r_source r))
                      (entity_name_or_unknown s (r_target r)) (relation_score text r))
       (filter (\<lambda>(k, r). 0 < relation_score text r) rs)"
  by (induction rs arbitrary: acc)
     (auto simp: search_relation_def relation_relevance_score Let_def)

lemma query_eq:
  "query text limit s =
     slice_to limit (sort_desc relevance (entity_matches text s @ relation_matches text s))"
  by (simp add: query_def Let_def fold_search_entity fold_search_relation
      entity_matches_def relation_matches_def)

lemma descending_sort_desc: "descending (sort_desc relevance rs)"
proof -
  have "sorted (map (\<lambda>x. - relevance x) (sort_key (\<lambda>x. - relevance x) rs))"
    by (rule sorted_sort_key)
  then show ?thesis by (simp add: descending_def sort_desc_def sorted_map)
qed

lemma mset_sort_desc: "mset (sort_desc f rs) = mset rs"
  by (simp add: sort_desc_def)

lemma set_sort_desc: "set (sort_desc f rs) = set rs"
  by (simp add: sort_desc_def)

lemma slice_to_take: "0 \<le> limit \<Longrightarrow> slice_to limit xs = take (nat limit) xs"
  by (simp add: slice_to_def)

lemma descending_slice_to: "descending rs \<Longrightarrow> descending (slice_to limit rs)"
  by (simp add: descending_def slice_to_def sorted_wrt_take)

lemma set_slice_to: "set (slice_to limit xs) \<subseteq> set xs"
  by (auto simp: slice_to_def dest: in_set_takeD)

lemma entity_score_nonneg: "0 \<le> e_importance e \<Longrightarrow> 0 \<le> entity_score text e"
  by (simp add: entity_score_def)

text \<open>
  Claim C5. For every store, text and limit, \<open>query\<close> scores each entity with 1.0 for
  the text in its name, 0.8 for the text in its description, 0.5 for each attribute value
  that contains the text, 0.3 for the text in its type, and importance \<times> 0.3 (all matches
  case-insensitive); it scores each relation with 0.8 for the text in its type and
  importance \<times> 0.2; it leaves out what does not score above zero (for an importance that
  is not negative, what scores zero); and it returns the matching entities and relations
  together, sorted descending by relevance and cut to the limit: a rearrangement
  \<open>ranked\<close> of all matches that is descending, of which the result is the slice
  \<open>[:limit]\<close>, the first \<open>limit\<close> elements for a limit that is not negative.
\<close>

theorem query_ranks_matches:
  "\<exists>ranked. mset ranked = mset (entity_matches text s @ relation_matches text s)
     \<and> descending ranked
     \<and> query text limit s = slice_to limit ranked
     \<and> (0 \<le> limit \<longrightarrow> query text limit s = take (nat limit) ranked)
     \<and> descending (query text limit s)"
  using descending_sort_desc[of "entity_matches text s @ relation_matches text s"]
        mset_sort_desc[of relevance "entity_matches text s @ relation_matches text s"]
  by (intro exI[of _ "sort_desc relevance (entity_matches text s @ relation_matches text s)"])
     (simp add: query_eq slice_to_take descending_slice_to)

theorem query_ranks_matches_witness:
  "(0::int) \<le> 3
   \<and> map (\<lambda>(k, e). entity_score ''python'' e) (entities python_store) = [257 / 100, 3 / 100]
   \<and> map (\<lambda>(k, r). relation_score ''python'' r) (relations python_store) = [9 / 10]
   \<and> (\<exists>ranked. mset ranked
          = mset (entity_matches ''python'' python_store @ relation_matches ''python'' python_store)
        \<and> descending ranked
        \<and> query ''python'' 3 python_store = take 3 ranked)
   \<and> map result_id (query ''python'' 3 python_store) = [''e1'', ''rel_3.0'', ''e2'']
   \<and> map relevance (query ''python'' 3 python_store) = [257 / 100, 9 / 10, 3 / 100]"
proof -
  have c1: "map result_id (query ''python'' 3 python_store) = [''e1'', ''rel_3.0'', ''e2'']"
    by code_simp
  have c2: "map relevance (query ''python'' 3 python_store) = [257 / 100, 9 / 10, 3 / 100]"
    by code_simp
  have c3: "map (\<lambda>(k, e). entity_score ''python'' e) (entities python_store)
              = [257 / 100, 3 / 100]"
    by code_simp
  have c4: "map (\<lambda>(k, r). relation_score ''python'' r) (relations python_store) = [9 / 10]"
    by code_simp
  from query_ranks_matches[of "''python''" python_store 3]
  have "\<exists>ranked. mset ranked
          = mset (entity_matches ''python'' python_store @ relation_matches ''python'' python_store)
        \<and> descending ranked
        \<and> query ''python'' 3 python_store = take 3 ranked"
    by auto
  then show ?thesis using c1 c2 c3 c4 by simp
qed

text \<open>
  Claim C10. In every list that \<open>query\<close> returns, the \<open>type\<close> of an entity result is
  the literal \<open>entity\<close> and the \<open>type\<close> of a relation result is the literal
  \<open>relation\<close>: the result is the stored record with its type overwritten by the literal
  (and the relevance added), so the stored type tag is not in the returned record. A
  query returns entity results and relation results only.
\<close>

theorem query_type_is_literal:
  "\<forall>r \<in> set (query text limit s).
     (case r of
        EntityResult e rv \<Rightarrow>
          e_type e = ''entity'' \<and> (\<exists>(k, e0) \<in> set (entities s). e = e0\<lparr>e_type := ''entity''\<rparr>)
      | RelationResult rel sn tn rv \<Rightarrow>
          r_type rel = ''relation''
          \<and> (\<exists>(k, r0) \<in> set (relations s). rel = r0\<lparr>r_type := ''relation''\<rparr>)
      | _ \<Rightarrow> False)"
proof
  fix r assume a: "r \<in> set (query text limit s)"
  have "r \<in> set (sort_desc relevance (entity_matches text s @ relation_matches text s))"
    by (rule subsetD[OF set_slice_to a[unfolded query_eq]])
  then have "r \<in> set (entity_matches text s) \<or> r \<in> set (relation_matches text s)"
    by (simp add: sort_desc_def)
  then show "case r of
        EntityResult e rv \<Rightarrow>
          e_type e = ''entity'' \<and> (\<exists>(k, e0) \<in> set (entities s). e = e0\<lparr>e_type := ''entity''\<rparr>)
      | RelationResult rel sn tn rv \<Rightarrow>
          r_type rel = ''relation''
          \<and> (\<exists>(k, r0) \<in> set (relations s). rel = r0\<lparr>r_type := ''relation''\<rparr>)
      | _ \<Rightarrow> False"
    by (force simp: entity_matches_def relation_matches_def)
qed

theorem query_type_is_literal_witness:
  "map (\<lambda>(k, e). e_type e) (entities python_store) = [''language'', ''language'']
   \<and> map (\<lambda>(k, r). r_type r) (relations python_store) = [''Python binding'']
   \<and> map result_type (query ''python'' 3 python_store) = [''entity'', ''relation'', ''entity'']
   \<and> EntityResult python_result (257 / 100) \<in> set (query ''python'' 3 python_store)
   \<and> e_type python_result = ''entity''
   \<and> (\<exists>(k, e0) \<in> set (entities python_store). python_result = e0\<lparr>e_type := ''entity''\<rparr>)"
proof -
  have c1: "map (\<lambda>(k, e). e_type e) (entities python_store) = [''language'', ''language'']"
    by code_simp
  have c2: "map (\<lambda>(k, r). r_type r) (relations python_store) = [''Python binding'']"
    by code_simp
  have c3: "map result_type (query ''python'' 3 python_store)
              = [''entity'', ''relation'', ''entity'']"
    by code_simp
  have mem: "EntityResult python_result (257 / 100) \<in> set (query ''python'' 3 python_store)"
    by code_simp
  from query_type_is_literal[of "''python''" 3 python_store, rule_format, OF mem]
  show ?thesis using c1 c2 c3 mem by simp
qed

section \<open>Reads: access counters and traversal\<close>

lemma same_but_access_refl [simp]: "same_but_access e e"
  by (simp add: same_but_access_def)

lemma same_but_access_accessed [simp]: "same_but_access e (accessed now e)"
  by (simp add: same_but_access_def accessed_def)

lemma same_but_access_trans:
  "same_but_access e1 e2 \<Longrightarrow> same_but_access e2 e3 \<Longrightarrow> same_but_access e1 e3"
  by (cases e1; cases e2; cases e3) (auto simp: same_but_access_def)

lemma only_access_changed_refl [simp]: "only_access_changed s s"
  by (simp add: only_access_changed_def list_all2_same split_beta)

lemma only_access_changed_trans:
  assumes "only_access_changed s1 s2" and "only_access_changed s2 s3"
  shows "only_access_changed s1 s3"
proof -
  have a: "s2 = s1\<lparr>entities := entities s2\<rparr>" and b: "s3 = s2\<lparr>entities := entities s3\<rparr>"
    using assms by (simp_all add: only_access_changed_def)
  have r: "s3 = s1\<lparr>entities := entities s3\<rparr>"
    by (subst b, subst a) simp
  have l12: "list_all2 (\<lambda>(k, e) (k', e'). k' = k \<and> same_but_access e e')
               (entities s1) (entities s2)"
    and l23: "list_all2 (\<lambda>(k, e) (k', e'). k' = k \<and> same_but_access e e')
               (entities s2) (entities s3)"
    using assms by (simp_all add: only_access_changed_def)
  have "list_all2 (\<lambda>(k, e) (k', e'). k' = k \<and> same_but_access e e') (entities s1) (entities s3)"
    by (rule list_all2_trans[OF _ l12 l23]) (auto intro: same_but_access_trans)
  then show ?thesis using r by (simp add: only_access_changed_def)
qed

lemma update_access_rel:
  "map_of al k = Some e \<Longrightarrow>
   list_all2 (\<lambda>(k, e) (k', e'). k' = k \<and> same_but_access e e') al
     (AList.update k (accessed now e) al)"
  by (induction al) (auto simp: list_all2_same split_beta)

lemma get_entity_Some:
  "map_of (entities s) k = Some e \<Longrightarrow>
   get_entity now k s =
     (Some (accessed now e), s\<lparr>entities := AList.update k (accessed now e) (entities s)\<rparr>)"
  by (simp add: get_entity_def accessed_def Let_def)

lemma get_entity_None: "map_of (entities s) k = None \<Longrightarrow> get_entity now k s = (None, s)"
  by (simp add: get_entity_def)

lemma get_entity_frame: "only_access_changed s (snd (get_entity now k s))"
  by (cases "map_of (entities s) k")
     (simp_all add: get_entity_Some get_entity_None only_access_changed_def update_access_rel)

lemma get_entity_other:
  "k' \<noteq> k \<Longrightarrow> map_of (entities (snd (get_entity now k s))) k' = map_of (entities s) k'"
  by (cases "map_of (entities s) k")
     (simp_all add: get_entity_Some get_entity_None update_conv')


lemma fetch_step:
  "fetch now k (acc, s) =
     (case map_of (entities s) k of
        None \<Rightarrow> (acc, s)
      | Some e \<Rightarrow> (acc @ [accessed now e],
                    s\<lparr>entities := AList.update k (accessed now e) (entities s)\<rparr>))"
  by (simp add: fetch_def get_entity_Some get_entity_None split: option.splits)

lemma fetch_snd: "snd (fetch now k (acc, s)) = snd (get_entity now k s)"
  by (simp add: fetch_step get_entity_Some get_entity_None split: option.splits)

lemma fold_fetch:
  assumes "distinct ids"
  shows "fold (fetch now) ids (acc, s) = (acc', s') \<Longrightarrow>
     only_access_changed s s'
     \<and> (\<forall>k'. k' \<notin> set ids \<longrightarrow> map_of (entities s') k' = map_of (entities s) k')
     \<and> (\<exists>new. acc' = acc @ new
          \<and> (\<forall>r \<in> set new. \<exists>k e. k \<in> set ids \<and> map_of (entities s) k = Some e
                \<and> r = accessed now e \<and> map_of (entities s') k = Some (accessed now e)))"
  using assms
proof (induction ids arbitrary: acc s)
  case Nil
  then show ?case by simp
next
  case (Cons k rest)
  obtain acc1 s1 where step: "fetch now k (acc, s) = (acc1, s1)" by (cases "fetch now k (acc, s)")
  have s1: "s1 = snd (get_entity now k s)" using fetch_snd[of now k acc s] step by simp
  have frame1: "only_access_changed s s1" by (simp add: s1 get_entity_frame)
  have other1: "k' \<noteq> k \<Longrightarrow> map_of (entities s1) k' = map_of (entities s) k'" for k'
    by (simp add: s1 get_entity_other)
  from Cons.prems have run: "fold (fetch now) rest (acc1, s1) = (acc', s')" and d: "distinct rest"
    and kn: "k \<notin> set rest"
    by (simp_all add: step)
  from Cons.IH[OF run d] obtain new where
    frame2: "only_access_changed s1 s'"
    and other2: "\<forall>k'. k' \<notin> set rest \<longrightarrow> map_of (entities s') k' = map_of (entities s1) k'"
    and acc': "acc' = acc1 @ new"
    and new: "\<forall>r \<in> set new. \<exists>k e. k \<in> set rest \<and> map_of (entities s1) k = Some e
                \<and> r = accessed now e \<and> map_of (entities s') k = Some (accessed now e)"
    by blast
  have new': "\<forall>r \<in> set new. \<exists>k' e. k' \<in> set (k # rest) \<and> map_of (entities s) k' = Some e
                \<and> r = accessed now e \<and> map_of (entities s') k' = Some (accessed now e)"
  proof
    fix r assume "r \<in> set new"
    with new obtain k0 e where k0: "k0 \<in> set rest" "map_of (entities s1) k0 = Some e"
      "r = accessed now e" "map_of (entities s') k0 = Some (accessed now e)" by blast
    have "k0 \<noteq> k" using k0(1) kn by auto
    then have "map_of (entities s) k0 = Some e" using k0(2) other1 by simp
    then show "\<exists>k' e. k' \<in> set (k # rest) \<and> map_of (entities s) k' = Some e
                \<and> r = accessed now e \<and> map_of (entities s') k' = Some (accessed now e)"
      using k0 by auto
  qed
  have tr: "only_access_changed s s'" by (rule only_access_changed_trans[OF frame1 frame2])
  have oth: "\<forall>k'. k' \<notin> set (k # rest) \<longrightarrow> map_of (entities s') k' = map_of (entities s) k'"
    using other1 other2 by auto
  show ?case
  proof (cases "map_of (entities s) k")
    case None
    then have "acc1 = acc" using step by (simp add: fetch_step)
    then show ?thesis using tr oth acc' new' by blast
  next
    case (Some e)
    then have a1: "acc1 = acc @ [accessed now e]"
      and e1: "map_of (entities s1) k = Some (accessed now e)"
      using step by (auto simp: fetch_step update_conv')
    have e': "map_of (entities s') k = Some (accessed now e)" using other2 kn e1 by simp
    have "acc' = acc @ (accessed now e # new)" by (simp add: acc' a1)
    moreover have "\<forall>r \<in> set (accessed now e # new). \<exists>k' e. k' \<in> set (k # rest)
                \<and> map_of (entities s) k' = Some e
                \<and> r = accessed now e \<and> map_of (entities s') k' = Some (accessed now e)"
      using new' Some e' by auto
    ultimately show ?thesis using tr oth by blast
  qed
qed

lemma visit_step:
  "visit w (seen, nxt) = (if w \<in> set seen then (seen, nxt) else (seen @ [w], nxt @ [w]))"
  by (simp add: visit_def)

lemma fold_visit:
  "fold visit ws (seen, nxt) = (seen', nxt') \<Longrightarrow>
   \<exists>new. seen' = seen @ new \<and> nxt' = nxt @ new \<and> distinct new
        \<and> set new = set ws - set seen"
proof (induction ws arbitrary: seen nxt)
  case Nil
  then show ?case by simp
next
  case (Cons w ws)
  show ?case
  proof (cases "w \<in> set seen")
    case True
    with Cons.prems have "fold visit ws (seen, nxt) = (seen', nxt')" by (simp add: visit_step)
    from Cons.IH[OF this] show ?thesis using True by auto
  next
    case False
    with Cons.prems have "fold visit ws (seen @ [w], nxt @ [w]) = (seen', nxt')"
      by (simp add: visit_step)
    from Cons.IH[OF this] obtain new where n: "seen' = (seen @ [w]) @ new"
      "nxt' = (nxt @ [w]) @ new" "distinct new" "set new = set ws - set (seen @ [w])" by blast
    have "distinct (w # new)" using n by auto
    moreover have "set (w # new) = set (w # ws) - set seen" using n False by auto
    ultimately show ?thesis using n by (intro exI[of _ "w # new"]) simp
  qed
qed

lemma fold_expand:
  "fold (\<lambda>v acc. fold visit (succs g v) acc) vs (seen, nxt) = (seen', nxt') \<Longrightarrow>
   \<exists>new. seen' = seen @ new \<and> nxt' = nxt @ new \<and> distinct new
        \<and> set new = (\<Union>v \<in> set vs. set (succs g v)) - set seen"
proof (induction vs arbitrary: seen nxt)
  case Nil
  then show ?case by simp
next
  case (Cons v vs)
  obtain seen1 nxt1 where one: "fold visit (succs g v) (seen, nxt) = (seen1, nxt1)"
    by (cases "fold visit (succs g v) (seen, nxt)")
  from fold_visit[OF one] obtain n1 where n1: "seen1 = seen @ n1" "nxt1 = nxt @ n1"
    "distinct n1" "set n1 = set (succs g v) - set seen" by blast
  from Cons.prems have "fold (\<lambda>v acc. fold visit (succs g v) acc) vs (seen1, nxt1) = (seen', nxt')"
    by (simp add: one)
  from Cons.IH[OF this] obtain n2 where n2: "seen' = seen1 @ n2" "nxt' = nxt1 @ n2"
    "distinct n2" "set n2 = (\<Union>v \<in> set vs. set (succs g v)) - set seen1" by blast
  have "distinct (n1 @ n2)" using n1 n2 by auto
  moreover have "set (n1 @ n2) = (\<Union>v \<in> set (v # vs). set (succs g v)) - set seen"
    using n1 n2 by auto
  ultimately show ?case using n1 n2 by (intro exI[of _ "n1 @ n2"]) simp
qed

lemma expand_effect:
  "expand g thislevel seen = (seen', nxt') \<Longrightarrow>
   seen' = seen @ nxt' \<and> distinct nxt'
   \<and> set nxt' = (\<Union>v \<in> set thislevel. set (succs g v)) - set seen"
  using fold_expand[of g thislevel seen "[]" seen' nxt'] by (auto simp: expand_def)

lemma bfs_loop_distinct:
  "distinct (map fst (bfs_loop g seen nxt level n))
   \<and> fst ` set (bfs_loop g seen nxt level n) \<inter> set seen = {}"
proof (induction n arbitrary: seen nxt level)
  case 0
  show ?case by simp
next
  case (Suc n)
  show ?case
  proof (cases "nxt = []")
    case True
    then show ?thesis by simp
  next
    case False
    obtain seen' nxt' where ex: "expand g nxt seen = (seen', nxt')"
      by (cases "expand g nxt seen")
    from expand_effect[OF ex] have e: "seen' = seen @ nxt'" "distinct nxt'"
      "set nxt' \<inter> set seen = {}" by auto
    let ?found = "map (\<lambda>w. (w, level + 1)) nxt'"
    have f1: "map fst ?found = nxt'" by (simp add: comp_def)
    have f2: "fst ` set ?found = set nxt'" by (simp add: image_image)
    from Suc.IH[of seen' nxt' "level + 1"] have
      r1: "distinct (map fst (bfs_loop g seen' nxt' (level + 1) n))"
      and r2: "fst ` set (bfs_loop g seen' nxt' (level + 1) n) \<inter> set seen' = {}" by auto
    have both: "distinct (map fst (?found @ bfs_loop g seen' nxt' (level + 1) n))
      \<and> fst ` set (?found @ bfs_loop g seen' nxt' (level + 1) n) \<inter> set seen = {}"
      using e r1 r2 f1 f2 by (auto simp: image_Un)
    have one: "distinct (map fst ?found) \<and> fst ` set ?found \<inter> set seen = {}"
      using e f1 f2 by auto
    show ?thesis using False ex both one by (simp add: Let_def)
  qed
qed

lemma related_loop_skip:
  "k = a \<or> map_of (entities s) k = None \<or> d + 1 < 2 \<Longrightarrow>
   related_loop now a rt ((k, d) # rest) acc s = related_loop now a rt rest acc s"
  by auto

lemma related_loop_raise:
  "k \<noteq> a \<Longrightarrow> map_of (entities s) k \<noteq> None \<Longrightarrow> \<not> d + 1 < 2 \<Longrightarrow>
   rt \<noteq> None \<and> rt \<noteq> Some [] \<Longrightarrow>
   related_loop now a rt ((k, d) # rest) acc s = (Raised TypeError, s)"
  by auto

lemma related_loop_fetch:
  "k \<noteq> a \<Longrightarrow> map_of (entities s) k = Some e \<Longrightarrow> \<not> d + 1 < 2 \<Longrightarrow>
   \<not> (rt \<noteq> None \<and> rt \<noteq> Some []) \<Longrightarrow>
   related_loop now a rt ((k, d) # rest) acc s =
     related_loop now a rt rest
       (acc @ [\<lparr>rel_entity = accessed now e, relationship_distance = d,
                 relationship_strength = 1 / (of_int d + 1)\<rparr>])
       (s\<lparr>entities := AList.update k (accessed now e) (entities s)\<rparr>)"
  by (auto simp: get_entity_Some)

lemma fetched_from_earlier:
  assumes "fetched_from now s1 s' k r" and "map_of (entities s1) k = map_of (entities s) k"
  shows "fetched_from now s s' k r"
  using assms by (simp add: fetched_from_def)

lemma traversed_iff:
  "traversed now a s s' lengths r =
     (\<exists>k d. (k, d) \<in> set lengths \<and> k \<noteq> a \<and> fetched_from now s s' k (rel_entity r)
        \<and> relationship_distance r = d \<and> relationship_strength r = 1 / (of_int d + 1))"
  by (auto simp: traversed_def list_ex_iff)

lemma traversed_Cons: "traversed now a s s' rest r \<Longrightarrow> traversed now a s s' (x # rest) r"
  by (auto simp: traversed_iff)

lemma traversed_earlier:
  assumes "traversed now a s1 s' rest r"
    and "\<And>k'. k' \<in> fst ` set rest \<Longrightarrow> map_of (entities s1) k' = map_of (entities s) k'"
  shows "traversed now a s s' rest r"
proof -
  from assms(1) obtain k d where kd: "(k, d) \<in> set rest" "k \<noteq> a"
    "fetched_from now s1 s' k (rel_entity r)"
    "relationship_distance r = d" "relationship_strength r = 1 / (of_int d + 1)"
    by (auto simp: traversed_iff)
  have "k \<in> fst ` set rest" using kd(1) by force
  from fetched_from_earlier[OF kd(3) assms(2)[OF this]] kd show ?thesis
    by (auto simp: traversed_iff)
qed

lemma related_loop_effect:
  assumes "distinct (map fst lengths)"
  shows "related_loop now a rt lengths acc s = (out, s') \<Longrightarrow>
     only_access_changed s s'
     \<and> (\<forall>k'. k' \<notin> fst ` set lengths \<longrightarrow> map_of (entities s') k' = map_of (entities s) k')
     \<and> (\<forall>rs. out = Returned rs \<longrightarrow>
          (\<exists>new. rs = acc @ new \<and> (\<forall>r \<in> set new. traversed now a s s' lengths r)))"
  using assms
proof (induction lengths arbitrary: acc s)
  case Nil
  then show ?case by auto
next
  case (Cons x rest)
  obtain k d where x: "x = (k, d)" by (cases x)
  from Cons.prems have dr: "distinct (map fst rest)" and kn: "k \<notin> fst ` set rest"
    by (auto simp: x)
  let ?skip = "k = a \<or> map_of (entities s) k = None \<or> d + 1 < 2"
  show ?case
  proof (cases ?skip)
    case True
    then have "related_loop now a rt rest acc s = (out, s')"
      using Cons.prems(1) unfolding x by (simp only: related_loop_skip)
    from Cons.IH[OF this dr] have
      f: "only_access_changed s s'"
      and o: "\<forall>k'. k' \<notin> fst ` set rest \<longrightarrow> map_of (entities s') k' = map_of (entities s) k'"
      and r: "\<forall>rs. out = Returned rs \<longrightarrow>
          (\<exists>new. rs = acc @ new \<and> (\<forall>r \<in> set new. traversed now a s s' rest r))"
      by blast+
    have o': "\<forall>k'. k' \<notin> fst ` set (x # rest) \<longrightarrow> map_of (entities s') k' = map_of (entities s) k'"
      using o by simp
    have r': "\<forall>rs. out = Returned rs \<longrightarrow>
          (\<exists>new. rs = acc @ new \<and> (\<forall>r \<in> set new. traversed now a s s' (x # rest) r))"
    proof (intro allI impI)
      fix rs assume "out = Returned rs"
      with r obtain new where n: "rs = acc @ new" "\<forall>r \<in> set new. traversed now a s s' rest r"
        by blast
      have "\<forall>r \<in> set new. traversed now a s s' (x # rest) r"
        using n(2) by (simp add: traversed_Cons)
      with n(1) show "\<exists>new. rs = acc @ new \<and> (\<forall>r \<in> set new. traversed now a s s' (x # rest) r)"
        by (intro exI[of _ new]) simp
    qed
    show ?thesis by (intro conjI f o' r')
  next
    case False
    then obtain e where e: "map_of (entities s) k = Some e" and ka: "k \<noteq> a" and dd: "\<not> d + 1 < 2"
      by auto
    have en: "map_of (entities s) k \<noteq> None" using e by simp
    show ?thesis
    proof (cases "rt \<noteq> None \<and> rt \<noteq> Some []")
      case True
      have "(out, s') = (Raised TypeError, s)"
        using Cons.prems(1) related_loop_raise[OF ka en dd True, of now rest acc]
        unfolding x by (simp only:)
      then show ?thesis by simp
    next
      case noraise: False
      define s1 where "s1 = s\<lparr>entities := AList.update k (accessed now e) (entities s)\<rparr>"
      define hd where "hd = \<lparr>rel_entity = accessed now e, relationship_distance = d,
                            relationship_strength = 1 / (of_int d + 1)\<rparr>"
      have s1: "s1 = snd (get_entity now k s)" by (simp add: get_entity_Some[OF e] s1_def)
      have run: "related_loop now a rt rest (acc @ [hd]) s1 = (out, s')"
        using Cons.prems(1) related_loop_fetch[OF ka e dd noraise, of now rest acc]
        unfolding x s1_def hd_def by (simp only:)
      have frame1: "only_access_changed s s1" by (simp add: s1 get_entity_frame)
      have other1: "k' \<noteq> k \<Longrightarrow> map_of (entities s1) k' = map_of (entities s) k'" for k'
        by (simp add: s1 get_entity_other)
      have e1: "map_of (entities s1) k = Some (accessed now e)" by (simp add: s1_def update_conv')
      from Cons.IH[OF run dr] have
        frame2: "only_access_changed s1 s'"
        and other2: "\<forall>k'. k' \<notin> fst ` set rest \<longrightarrow> map_of (entities s') k' = map_of (entities s1) k'"
        and res: "\<forall>rs. out = Returned rs \<longrightarrow>
          (\<exists>new. rs = (acc @ [hd]) @ new \<and> (\<forall>r \<in> set new. traversed now a s1 s' rest r))"
        by blast+
      have tr: "only_access_changed s s'" by (rule only_access_changed_trans[OF frame1 frame2])
      have oth: "\<forall>k'. k' \<notin> fst ` set (x # rest) \<longrightarrow> map_of (entities s') k' = map_of (entities s) k'"
        using other1 other2 by (auto simp: x)
      have e': "map_of (entities s') k = Some (accessed now e)" using other2 kn e1 by simp
      have hd_ok: "traversed now a s s' (x # rest) hd"
        unfolding traversed_iff
        by (rule exI[of _ k], rule exI[of _ d]) (simp add: x ka hd_def fetched_from_def e e')
      have rest_ok: "traversed now a s s' (x # rest) r" if "traversed now a s1 s' rest r" for r
      proof -
        have "map_of (entities s1) k' = map_of (entities s) k'" if "k' \<in> fst ` set rest" for k'
        proof -
          have "k' \<noteq> k" using that kn by blast
          then show ?thesis by (rule other1)
        qed
        from traversed_earlier[OF \<open>traversed now a s1 s' rest r\<close> this]
        show ?thesis by (simp add: traversed_Cons)
      qed
      have "\<exists>new. rs = acc @ new \<and> (\<forall>r \<in> set new. traversed now a s s' (x # rest) r)"
        if "out = Returned rs" for rs
      proof -
        from res that obtain new where new: "rs = (acc @ [hd]) @ new"
          "\<forall>r \<in> set new. traversed now a s1 s' rest r" by blast
        have "rs = acc @ (hd # new)" using new(1) by simp
        moreover have "\<forall>r \<in> set (hd # new). traversed now a s s' (x # rest) r"
          using new(2) hd_ok rest_ok by auto
        ultimately show ?thesis by blast
      qed
      then have res': "\<forall>rs. out = Returned rs \<longrightarrow>
          (\<exists>new. rs = acc @ new \<and> (\<forall>r \<in> set new. traversed now a s s' (x # rest) r))"
        by (intro allI impI)
      show ?thesis by (intro conjI tr oth res')
    qed
  qed
qed

lemma succs_iff: "w \<in> set (succs g v) \<longleftrightarrow> (\<exists>k. has_edge g v w k)"
proof
  assume "w \<in> set (succs g v)"
  then obtain k d where "((v, w, k), d) \<in> set (g_edges g)" by (auto simp: succs_def)
  then have "(v, w, k) \<in> fst ` set (g_edges g)" by force
  then show "\<exists>k. has_edge g v w k" by (auto simp: has_edge_def map_of_eq_None_iff)
next
  assume "\<exists>k. has_edge g v w k"
  then obtain k where "(v, w, k) \<in> fst ` set (g_edges g)"
    by (auto simp: has_edge_def map_of_eq_None_iff)
  then obtain d where "((v, w, k), d) \<in> set (g_edges g)" by auto
  then show "w \<in> set (succs g v)" by (force simp: succs_def)
qed

lemma path_lengths_distinct:
  "single_source_shortest_path_length g a cutoff = Returned lengths \<Longrightarrow>
   distinct (map fst lengths)"
  using bfs_loop_distinct[of g "[a]" "[a]" 0 "nat cutoff"]
  by (auto simp: single_source_shortest_path_length_def split: if_splits)

lemma path_lengths_depth_one:
  assumes "has_node g a"
  shows "\<exists>nxt. single_source_shortest_path_length g a 1 = Returned ((a, 0) # map (\<lambda>w. (w, 1)) nxt)
      \<and> distinct nxt \<and> set nxt = set (succs g a) - {a}"
proof -
  obtain seen' nxt where ex: "expand g [a] [a] = (seen', nxt)" by (cases "expand g [a] [a]")
  from expand_effect[OF ex] have e: "distinct nxt" "set nxt = set (succs g a) - {a}" by auto
  have "bfs_loop g [a] [a] 0 (Suc 0) = map (\<lambda>w. (w, 1)) nxt"
    by (simp add: ex Let_def)
  then show ?thesis using assms e
    by (intro exI[of _ nxt]) (simp add: single_source_shortest_path_length_def)
qed

lemma related_loop_returns:
  assumes "distinct (map fst lengths)" and "rt = None \<or> rt = Some []"
  shows "\<exists>rs s'. related_loop now a rt lengths acc s = (Returned rs, s') \<and> set acc \<subseteq> set rs
     \<and> (\<forall>k d e. (k, d) \<in> set lengths \<and> k \<noteq> a \<and> map_of (entities s) k = Some e
            \<and> \<not> d + 1 < 2 \<longrightarrow>
          \<lparr>rel_entity = accessed now e, relationship_distance = d,
            relationship_strength = 1 / (of_int d + 1)\<rparr> \<in> set rs)"
  using assms(1)
proof (induction lengths arbitrary: acc s)
  case Nil
  show ?case by simp
next
  case (Cons x rest)
  obtain k d where x: "x = (k, d)" by (cases x)
  from Cons.prems have dr: "distinct (map fst rest)" and kn: "k \<notin> fst ` set rest"
    by (auto simp: x)
  have noraise: "\<not> (rt \<noteq> None \<and> rt \<noteq> Some [])" using assms(2) by auto
  show ?case
  proof (cases "k = a \<or> map_of (entities s) k = None \<or> d + 1 < 2")
    case True
    from Cons.IH[OF dr, of acc s] obtain rs s' where
      r: "related_loop now a rt rest acc s = (Returned rs, s')" "set acc \<subseteq> set rs"
      and c: "\<forall>k d e. (k, d) \<in> set rest \<and> k \<noteq> a \<and> map_of (entities s) k = Some e
            \<and> \<not> d + 1 < 2 \<longrightarrow>
          \<lparr>rel_entity = accessed now e, relationship_distance = d,
            relationship_strength = 1 / (of_int d + 1)\<rparr> \<in> set rs" by blast
    have run: "related_loop now a rt (x # rest) acc s = (Returned rs, s')"
      unfolding x using r(1) True by (simp only: related_loop_skip)
    have "\<forall>k' d' e. (k', d') \<in> set (x # rest) \<and> k' \<noteq> a \<and> map_of (entities s) k' = Some e
            \<and> \<not> d' + 1 < 2 \<longrightarrow>
          \<lparr>rel_entity = accessed now e, relationship_distance = d',
            relationship_strength = 1 / (of_int d' + 1)\<rparr> \<in> set rs"
      using c True by (auto simp: x)
    with run r(2) show ?thesis by blast
  next
    case False
    then obtain e where e: "map_of (entities s) k = Some e" and ka: "k \<noteq> a" and dd: "\<not> d + 1 < 2"
      by auto
    define s1 where "s1 = s\<lparr>entities := AList.update k (accessed now e) (entities s)\<rparr>"
    define hd where "hd = \<lparr>rel_entity = accessed now e, relationship_distance = d,
                            relationship_strength = 1 / (of_int d + 1)\<rparr>"
    have other1: "k' \<noteq> k \<Longrightarrow> map_of (entities s1) k' = map_of (entities s) k'" for k'
      by (simp add: s1_def update_conv')
    from Cons.IH[OF dr, of "acc @ [hd]" s1] obtain rs s' where
      r: "related_loop now a rt rest (acc @ [hd]) s1 = (Returned rs, s')"
         "set (acc @ [hd]) \<subseteq> set rs"
      and c: "\<forall>k d e. (k, d) \<in> set rest \<and> k \<noteq> a \<and> map_of (entities s1) k = Some e
            \<and> \<not> d + 1 < 2 \<longrightarrow>
          \<lparr>rel_entity = accessed now e, relationship_distance = d,
            relationship_strength = 1 / (of_int d + 1)\<rparr> \<in> set rs" by blast
    have run: "related_loop now a rt (x # rest) acc s = (Returned rs, s')"
      unfolding x using r(1) related_loop_fetch[OF ka e dd noraise, of now rest acc]
      by (simp only: s1_def hd_def)
    have "\<lparr>rel_entity = accessed now e', relationship_distance = d',
            relationship_strength = 1 / (of_int d' + 1)\<rparr> \<in> set rs"
      if h: "(k', d') \<in> set (x # rest)" "k' \<noteq> a" "map_of (entities s) k' = Some e'"
         "\<not> d' + 1 < 2" for k' d' e'
    proof (cases "(k', d') = (k, d)")
      case True
      then have "e' = e" using h(3) e by simp
      then show ?thesis using True r(2) by (auto simp: hd_def)
    next
      case False
      then have in_rest: "(k', d') \<in> set rest" using h(1) by (auto simp: x)
      then have "k' \<noteq> k" using kn by force
      then have "map_of (entities s1) k' = Some e'" using h(3) other1 by simp
      with c in_rest h show ?thesis by blast
    qed
    then have "\<forall>k' d' e. (k', d') \<in> set (x # rest) \<and> k' \<noteq> a \<and> map_of (entities s) k' = Some e
            \<and> \<not> d' + 1 < 2 \<longrightarrow>
          \<lparr>rel_entity = accessed now e, relationship_distance = d',
            relationship_strength = 1 / (of_int d' + 1)\<rparr> \<in> set rs"
      by blast
    moreover have "set acc \<subseteq> set rs" using r(2) by simp
    ultimately show ?thesis using run by blast
  qed
qed

lemma find_related_entities_effect:
  assumes "find_related_entities now a rt depth s = (out, s')"
  shows "only_access_changed s s'
     \<and> (\<forall>rs. out = Returned rs \<longrightarrow>
          (\<forall>r \<in> set rs. \<exists>lengths.
              single_source_shortest_path_length (graph s) a depth = Returned lengths
              \<and> traversed now a s s' lengths r))"
proof (cases "map_of (entities s) a = None")
  case True
  then have "out = Returned []" "s' = s" using assms by (simp_all add: find_related_entities_def)
  then show ?thesis by simp
next
  case live: False
  show ?thesis
  proof (cases "single_source_shortest_path_length (graph s) a depth")
    case (Raised err)
    then have "s' = s" "out = Raised err"
      using assms live by (simp_all add: find_related_entities_def)
    then show ?thesis by simp
  next
    case (Returned lengths)
    obtain out1 s1 where loop: "related_loop now a rt lengths [] s = (out1, s1)"
      by (cases "related_loop now a rt lengths [] s")
    from related_loop_effect[OF path_lengths_distinct[OF Returned] loop]
    have f: "only_access_changed s s1"
      and r: "\<forall>rs. out1 = Returned rs \<longrightarrow>
          (\<exists>new. rs = [] @ new \<and> (\<forall>r \<in> set new. traversed now a s s1 lengths r))"
      by blast+
    show ?thesis
    proof (cases out1)
      case (Raised err)
      then have "s' = s1" "out = Raised err"
        using assms live Returned loop by (simp_all add: find_related_entities_def)
      then show ?thesis using f by simp
    next
      case inner: (Returned rs1)
      then have o: "s' = s1" "out = Returned (sort_desc relationship_strength rs1)"
        using assms live Returned loop by (simp_all add: find_related_entities_def)
      have "\<forall>r \<in> set rs1. traversed now a s s1 lengths r" using r inner by simp
      then show ?thesis using f o Returned by (simp add: set_sort_desc)
    qed
  qed
qed


lemma fetch_all_effect:
  assumes "distinct ids" and "fold (fetch now) ids ([], s) = (found, s')"
  shows "only_access_changed s s' \<and> (\<forall>r \<in> set found. \<exists>k. fetched_from now s s' k r)"
proof -
  from fold_fetch[OF assms(1) assms(2)] obtain new where
    f: "only_access_changed s s'" and n: "found = [] @ new"
    and r: "\<forall>r \<in> set new. \<exists>k e. k \<in> set ids \<and> map_of (entities s) k = Some e
                \<and> r = accessed now e \<and> map_of (entities s') k = Some (accessed now e)"
    by blast
  have "\<exists>k. fetched_from now s s' k r" if "r \<in> set found" for r
  proof -
    from r that n obtain k e where "map_of (entities s) k = Some e" "r = accessed now e"
      "map_of (entities s') k = Some (accessed now e)" by auto
    then have "fetched_from now s s' k r" by (simp add: fetched_from_def)
    then show ?thesis ..
  qed
  then show ?thesis using f by blast
qed

lemma ranked_ids_effect:
  assumes "distinct ids"
  shows "case (case fold (fetch now) ids ([], s) of
                 (found, s') \<Rightarrow> (slice_to limit (sort_desc e_importance found), s')) of
           (found, s') \<Rightarrow> only_access_changed s s'
              \<and> (\<forall>r \<in> set found. \<exists>k. fetched_from now s s' k r)"
proof -
  obtain found s' where run: "fold (fetch now) ids ([], s) = (found, s')"
    by (cases "fold (fetch now) ids ([], s)")
  from fetch_all_effect[OF assms run] have f: "only_access_changed s s'"
    and r: "\<forall>r \<in> set found. \<exists>k. fetched_from now s s' k r" by blast+
  have "set (slice_to limit (sort_desc e_importance found)) \<subseteq> set found"
    using set_slice_to[of limit "sort_desc e_importance found"] by (simp add: set_sort_desc)
  then have "\<forall>r \<in> set (slice_to limit (sort_desc e_importance found)).
               \<exists>k. fetched_from now s s' k r"
    using r by blast
  then show ?thesis using f by (simp add: run)
qed

section \<open>The inference cache\<close>

lemma find_append_None:
  "List.find P xs = None \<Longrightarrow> List.find P (xs @ ys) = List.find P ys"
  by (induction xs) (auto split: if_splits)

lemma find_append_Some:
  "List.find P xs = Some r \<Longrightarrow> List.find P (xs @ ys) = Some r"
  by (induction xs) (auto split: if_splits)

lemma unique_loop_first:
  assumes "every = pre @ xs"
    and "set seen = result_id ` set u"
    and "result_id ` set pre \<subseteq> set seen"
    and "distinct (map result_id u)"
    and "\<forall>r \<in> set u. List.find (\<lambda>x. result_id x = result_id r) every = Some r"
  shows "distinct (map result_id (unique_loop xs u seen))
     \<and> (\<forall>r \<in> set (unique_loop xs u seen).
           List.find (\<lambda>x. result_id x = result_id r) every = Some r)"
  using assms
proof (induction xs arbitrary: pre u seen)
  case Nil
  then show ?case by simp
next
  case (Cons x xs)
  have split: "every = (pre @ [x]) @ xs" using Cons.prems(1) by simp
  show ?case
  proof (cases "result_id x \<in> set seen")
    case True
    have "result_id ` set (pre @ [x]) \<subseteq> set seen" using True Cons.prems(3) by auto
    from Cons.IH[OF split Cons.prems(2) this Cons.prems(4) Cons.prems(5)]
    show ?thesis using True by simp
  next
    case False
    have none: "List.find (\<lambda>y. result_id y = result_id x) pre = None"
      using False Cons.prems(3) by (auto simp: find_None_iff)
    have fx: "List.find (\<lambda>y. result_id y = result_id x) every = Some x"
      unfolding Cons.prems(1) by (simp add: find_append_None[OF none])
    have a: "set (set_add (result_id x) seen) = result_id ` set (u @ [x])"
      using Cons.prems(2) by (auto simp: set_add_def)
    have b: "result_id ` set (pre @ [x]) \<subseteq> set (set_add (result_id x) seen)"
      using Cons.prems(3) by (auto simp: set_add_def)
    have c: "distinct (map result_id (u @ [x]))"
      using Cons.prems(2,4) False by auto
    have d: "\<forall>r \<in> set (u @ [x]). List.find (\<lambda>y. result_id y = result_id r) every = Some r"
      using Cons.prems(5) fx by auto
    from Cons.IH[OF split a b c d] show ?thesis using False by simp
  qed
qed

lemma unique_loop_start:
  "distinct (map result_id (unique_loop xs [] []))
   \<and> (\<forall>r \<in> set (unique_loop xs [] []).
         List.find (\<lambda>x. result_id x = result_id r) xs = Some r)"
  using unique_loop_first[of xs "[]" xs "[]" "[]"] by simp

lemma distinct_ids_sort_desc:
  "distinct (map g (sort_desc f xs)) = distinct (map g xs)"
proof -
  have "mset (map g (sort_desc f xs)) = mset (map g xs)" by (simp add: sort_desc_def)
  then show ?thesis by (rule mset_eq_imp_distinct_iff)
qed

lemma cached_after_infer:
  assumes "infer now q d eng = (Returned L, eng1)"
  shows "map_of (inference_cache eng1) (q @ ''_'' @ str_int d) = Some L"
proof (cases "map_of (inference_cache eng) (q @ ''_'' @ str_int d)")
  case (Some cached)
  then show ?thesis using assms by (simp add: infer_def)
next
  case None
  obtain out kg where g: "graph_reasoning now q d (knowledge_graph eng) = (out, kg)"
    by (cases "graph_reasoning now q d (knowledge_graph eng)")
  show ?thesis
  proof (cases out)
    case (Raised e)
    then show ?thesis using assms None g by (simp add: infer_def Let_def)
  next
    case (Returned graph_results)
    then show ?thesis using assms None g
      by (auto simp: infer_def Let_def update_conv')
  qed
qed

lemma infer_keeps_cached:
  assumes "map_of (inference_cache eng) k = Some L"
  shows "map_of (inference_cache (snd (infer now q d eng))) k = Some L"
proof (cases "map_of (inference_cache eng) (q @ ''_'' @ str_int d)")
  case (Some cached)
  then show ?thesis using assms by (simp add: infer_def)
next
  case None
  then have ne: "k \<noteq> q @ ''_'' @ str_int d" using assms by auto
  obtain out kg where g: "graph_reasoning now q d (knowledge_graph eng) = (out, kg)"
    by (cases "graph_reasoning now q d (knowledge_graph eng)")
  show ?thesis
  proof (cases out)
    case (Raised e)
    then show ?thesis using assms None g by (simp add: infer_def Let_def)
  next
    case (Returned graph_results)
    then show ?thesis using assms None g ne
      by (simp add: infer_def Let_def update_conv')
  qed
qed

lemma engine_step_keeps_cached:
  assumes "engine_step eng eng'" and "map_of (inference_cache eng) k = Some L"
  shows "map_of (inference_cache eng') k = Some L"
  using assms
proof (induction rule: engine_step.induct)
  case (graph_mutation eng kg)
  then show ?case by simp
next
  case (rule_addition eng ts r)
  then show ?case by (simp add: add_rule_def)
next
  case (inference eng now query_text max_depth)
  then show ?case by (rule infer_keeps_cached)
qed

lemma engine_steps_keep_cached:
  assumes "engine_step\<^sup>*\<^sup>* eng eng'" and "map_of (inference_cache eng) k = Some L"
  shows "map_of (inference_cache eng') k = Some L"
  using assms by (induction rule: rtranclp_induct) (auto intro: engine_step_keeps_cached)

text \<open>
  Claim C7. Once \<open>infer(q, d)\<close> has returned a list, every later call of
  \<open>infer(q, d)\<close> returns exactly that list and leaves the engine as it is, whatever
  happened in between: any change of the graph store, added rules, other inferences. The
  list of a call that found nothing cached has at most 10 results, no id twice, each
  result the first of its id among the direct, the rule-based and the graph-based results
  in this order, sorted descending by relevance.
\<close>

theorem infer_cache_is_stable:
  assumes first: "infer now q d eng = (Returned L, eng1)"
    and later: "engine_step\<^sup>*\<^sup>* eng1 eng2"
  shows "infer now' q d eng2 = (Returned L, eng2)
     \<and> (map_of (inference_cache eng) (q @ ''_'' @ str_int d) = None \<longrightarrow>
          length L \<le> 10 \<and> distinct (map result_id L) \<and> descending L
          \<and> (\<exists>graph_results kg.
                graph_reasoning now q d (knowledge_graph eng) = (Returned graph_results, kg)
                \<and> (\<forall>r \<in> set L.
                      List.find (\<lambda>x. result_id x = result_id r)
                        (query q 10 (knowledge_graph eng) @ apply_rules q eng @ graph_results)
                      = Some r)))"
proof (intro conjI impI)
  have "map_of (inference_cache eng2) (q @ ''_'' @ str_int d) = Some L"
    by (rule engine_steps_keep_cached[OF later cached_after_infer[OF first]])
  then show "infer now' q d eng2 = (Returned L, eng2)" by (simp add: infer_def)
next
  assume miss: "map_of (inference_cache eng) (q @ ''_'' @ str_int d) = None"
  obtain out kg where g: "graph_reasoning now q d (knowledge_graph eng) = (out, kg)"
    by (cases "graph_reasoning now q d (knowledge_graph eng)")
  have "out \<noteq> Raised e" for e using first miss g by (auto simp: infer_def Let_def)
  then obtain graph_results where out: "out = Returned graph_results" by (cases out) auto
  define results where
    "results = query q 10 (knowledge_graph eng) @ apply_rules q eng @ graph_results"
  have L: "L = slice_to 10 (sort_desc relevance (unique_loop results [] []))"
    using first miss g out by (simp add: infer_def Let_def results_def)
  have take: "L = take 10 (sort_desc relevance (unique_loop results [] []))"
    by (simp add: L slice_to_def)
  from unique_loop_start[of results] have
    u1: "distinct (map result_id (unique_loop results [] []))"
    and u2: "\<forall>r \<in> set (unique_loop results [] []).
               List.find (\<lambda>x. result_id x = result_id r) results = Some r" by blast+
  have "distinct (map result_id (sort_desc relevance (unique_loop results [] [])))"
    using u1 by (simp add: distinct_ids_sort_desc)
  then have d: "distinct (map result_id L)" by (simp add: take take_map[symmetric])
  have sub: "set L \<subseteq> set (unique_loop results [] [])"
    using set_take_subset[of 10 "sort_desc relevance (unique_loop results [] [])"]
    by (simp add: take set_sort_desc)
  have firsts: "\<forall>r \<in> set L. List.find (\<lambda>x. result_id x = result_id r) results = Some r"
    using u2 sub by blast
  have len: "length L \<le> 10" by (simp add: take)
  have desc: "descending L" unfolding L by (rule descending_slice_to[OF descending_sort_desc])
  show "length L \<le> 10" by (rule len)
  show "distinct (map result_id L)" by (rule d)
  show "descending L" by (rule desc)
  show "\<exists>graph_results kg.
                graph_reasoning now q d (knowledge_graph eng) = (Returned graph_results, kg)
                \<and> (\<forall>r \<in> set L.
                      List.find (\<lambda>x. result_id x = result_id r)
                        (query q 10 (knowledge_graph eng) @ apply_rules q eng @ graph_results)
                      = Some r)"
    using g out firsts unfolding results_def by blast
qed

theorem infer_cache_is_stable_witness:
  "infer 9 ''python'' 3 python_engine
     = (Returned python_inferences, snd (infer 9 ''python'' 3 python_engine))
   \<and> engine_step\<^sup>*\<^sup>* (snd (infer 9 ''python'' 3 python_engine)) python_engine_later
   \<and> map_of (inference_cache python_engine) (''python'' @ ''_'' @ str_int 3) = None
   \<and> infer 12 ''python'' 3 python_engine_later = (Returned python_inferences, python_engine_later)
   \<and> length python_inferences \<le> 10
   \<and> distinct (map result_id python_inferences)
   \<and> map result_id python_inferences
       = [''e1'', ''rel_3.0'', ''inference_r1'', ''graph_inference_e1_e2'', ''e2'']
   \<and> map fst (entities (knowledge_graph python_engine_later)) = [''x'', ''y'', ''z'']"
proof -
  have h1: "infer 9 ''python'' 3 python_engine
     = (Returned python_inferences, snd (infer 9 ''python'' 3 python_engine))"
    by code_simp
  have s1: "engine_step (snd (infer 9 ''python'' 3 python_engine))
     (add_rule ''2.0''
        \<lparr>rud_id = Some ''r2'', rud_name = Some ''typing'', rud_premises = Some [''python''],
         rud_conclusion = Some ''Python is dynamically typed'', rud_confidence = None,
         rud_type = None\<rparr>
        (snd (infer 9 ''python'' 3 python_engine)))"
    by (rule engine_step.rule_addition)
  have s2: "engine_step
     (add_rule ''2.0''
        \<lparr>rud_id = Some ''r2'', rud_name = Some ''typing'', rud_premises = Some [''python''],
         rud_conclusion = Some ''Python is dynamically typed'', rud_confidence = None,
         rud_type = None\<rparr>
        (snd (infer 9 ''python'' 3 python_engine)))
     python_engine_later"
    unfolding python_engine_later_def by (rule engine_step.graph_mutation)
  have h2: "engine_step\<^sup>*\<^sup>* (snd (infer 9 ''python'' 3 python_engine)) python_engine_later"
    using s1 s2 by (meson rtranclp.rtrancl_into_rtrancl rtranclp.rtrancl_refl)
  have h3: "map_of (inference_cache python_engine) (''python'' @ ''_'' @ str_int 3) = None"
    by code_simp
  have c1: "map result_id python_inferences
       = [''e1'', ''rel_3.0'', ''inference_r1'', ''graph_inference_e1_e2'', ''e2'']"
    by code_simp
  have c2: "map fst (entities (knowledge_graph python_engine_later)) = [''x'', ''y'', ''z'']"
    by code_simp
  from infer_cache_is_stable[OF h1 h2, of 12] h3
  have "infer 12 ''python'' 3 python_engine_later = (Returned python_inferences, python_engine_later)
     \<and> length python_inferences \<le> 10 \<and> distinct (map result_id python_inferences)"
    by blast
  then show ?thesis using h1 h2 h3 c1 c2 by simp
qed

section \<open>Export and import round trip\<close>

lemma update_fresh: "k \<notin> fst ` set al \<Longrightarrow> AList.update k v al = al @ [(k, v)]"
  by (induction al) auto

lemma fold_update_distinct:
  "distinct (map fst acc @ map fst xs) \<Longrightarrow>
   fold (\<lambda>(k, v) d. AList.update k (f v) d) xs acc = acc @ map (\<lambda>(k, v). (k, f v)) xs"
proof (induction xs arbitrary: acc)
  case Nil
  show ?case by simp
next
  case (Cons x xs)
  obtain k v where x: "x = (k, v)" by (cases x)
  have fresh: "k \<notin> fst ` set acc" using Cons.prems by (auto simp: x)
  have "distinct (map fst (acc @ [(k, f v)]) @ map fst xs)" using Cons.prems by (auto simp: x)
  from Cons.IH[OF this] show ?case by (simp add: x update_fresh[OF fresh])
qed

lemma dict_of_distinct:
  "distinct (map fst xs) \<Longrightarrow> dict_of f xs = map (\<lambda>(k, v). (k, f v)) xs"
  using fold_update_distinct[of "[]" xs f] by (simp add: dict_of_def)

lemma keys_map_values: "map fst (map (\<lambda>(k, v). (k, f v)) xs) = map fst xs"
  by (induction xs) auto

lemma fold_set_add_distinct: "distinct (acc @ xs) \<Longrightarrow> fold set_add xs acc = acc @ xs"
  by (induction xs arbitrary: acc) (auto simp: set_add_def)

lemma py_set_distinct: "distinct xs \<Longrightarrow> py_set xs = xs"
  using fold_set_add_distinct[of "[]" xs] by (simp add: py_set_def)

lemma entity_times_created [simp]: "e_created_at (entity_times e c l) = c"
  by (simp add: entity_times_def)

lemma entity_times_accessed [simp]: "e_last_accessed (entity_times e c l) = l"
  by (simp add: entity_times_def)

lemma relation_time_created [simp]: "r_created_at (relation_time r c) = c"
  by (simp add: relation_time_def)

lemma entity_times_restore:
  "e_created_at e = Instant c \<Longrightarrow> e_last_accessed e = Instant l \<Longrightarrow>
   entity_times (entity_times e a b) (Instant c) (Instant l) = e"
  by (simp add: entity_times_def)

lemma relation_time_restore:
  "r_created_at r = Instant c \<Longrightarrow> relation_time (relation_time r a) (Instant c) = r"
  by (simp add: relation_time_def)

lemma is_instant_iff: "is_instant t \<longleftrightarrow> (\<exists>d. t = Instant d)"
  by (cases t) (simp_all add: is_instant_def)

lemma export_entities_datetimes:
  "distinct (map fst acc @ map fst xs) \<Longrightarrow>
   list_all (\<lambda>(k, e). is_instant (e_created_at e) \<and> is_instant (e_last_accessed e)) xs \<Longrightarrow>
   export_entities isoformat xs acc =
     Returned (acc @ map (\<lambda>(k, e). (k, entity_times e (stamp_text isoformat (e_created_at e))
                                          (stamp_text isoformat (e_last_accessed e)))) xs)"
proof (induction xs arbitrary: acc)
  case Nil
  show ?case by simp
next
  case (Cons x xs)
  obtain k e where x: "x = (k, e)" by (cases x)
  from Cons.prems(2) obtain c l where
    st: "e_created_at e = Instant c" "e_last_accessed e = Instant l"
    by (auto simp: x is_instant_iff)
  have fresh: "k \<notin> fst ` set acc" using Cons.prems(1) by (auto simp: x)
  have d: "distinct (map fst (acc @ [(k, entity_times e (isoformat c) (isoformat l))])
             @ map fst xs)"
    using Cons.prems(1) by (auto simp: x)
  have r: "list_all (\<lambda>(k, e). is_instant (e_created_at e) \<and> is_instant (e_last_accessed e)) xs"
    using Cons.prems(2) by simp
  from Cons.IH[OF d r] show ?case
    by (simp add: x st update_fresh[OF fresh] stamp_text_def)
qed

lemma export_relations_datetimes:
  "distinct (map fst acc @ map fst xs) \<Longrightarrow>
   list_all (\<lambda>(k, r). is_instant (r_created_at r)) xs \<Longrightarrow>
   export_relations isoformat xs acc =
     Returned (acc @ map (\<lambda>(k, r). (k, relation_time r (stamp_text isoformat (r_created_at r))))
                       xs)"
proof (induction xs arbitrary: acc)
  case Nil
  show ?case by simp
next
  case (Cons x xs)
  obtain k r where x: "x = (k, r)" by (cases x)
  from Cons.prems(2) obtain c where st: "r_created_at r = Instant c"
    by (auto simp: x is_instant_iff)
  have fresh: "k \<notin> fst ` set acc" using Cons.prems(1) by (auto simp: x)
  have d: "distinct (map fst (acc @ [(k, relation_time r (isoformat c))]) @ map fst xs)"
    using Cons.prems(1) by (auto simp: x)
  have rest: "list_all (\<lambda>(k, r). is_instant (r_created_at r)) xs"
    using Cons.prems(2) by simp
  from Cons.IH[OF d rest] show ?case
    by (simp add: x st update_fresh[OF fresh] stamp_text_def)
qed

lemma load_entities_exported:
  assumes "\<forall>d. fromisoformat (isoformat d) = Some d"
  shows "distinct (map fst acc @ map fst xs) \<Longrightarrow>
    list_all (\<lambda>(k, e). is_instant (e_created_at e) \<and> is_instant (e_last_accessed e)) xs \<Longrightarrow>
    load_entities fromisoformat
      (map (\<lambda>(k, e). (k, entity_times e (stamp_text isoformat (e_created_at e))
                          (stamp_text isoformat (e_last_accessed e)))) xs) acc
    = (None, acc @ xs)"
proof (induction xs arbitrary: acc)
  case Nil
  show ?case by simp
next
  case (Cons x xs)
  obtain k e where x: "x = (k, e)" by (cases x)
  from Cons.prems(2) obtain c l where
    st: "e_created_at e = Instant c" "e_last_accessed e = Instant l"
    by (auto simp: x is_instant_iff)
  have fresh: "k \<notin> fst ` set acc" using Cons.prems(1) by (auto simp: x)
  have d: "distinct (map fst (acc @ [(k, e)]) @ map fst xs)" using Cons.prems(1) by (auto simp: x)
  have r: "list_all (\<lambda>(k, e). is_instant (e_created_at e) \<and> is_instant (e_last_accessed e)) xs"
    using Cons.prems(2) by simp
  from Cons.IH[OF d r] show ?case
    using assms
    by (simp add: x st update_fresh[OF fresh] stamp_text_def entity_times_restore[OF st])
qed

lemma load_relations_exported:
  assumes "\<forall>d. fromisoformat (isoformat d) = Some d"
  shows "distinct (map fst acc @ map fst xs) \<Longrightarrow>
    list_all (\<lambda>(k, r). is_instant (r_created_at r)) xs \<Longrightarrow>
    load_relations fromisoformat
      (map (\<lambda>(k, r). (k, relation_time r (stamp_text isoformat (r_created_at r)))) xs) acc
    = (None, acc @ xs)"
proof (induction xs arbitrary: acc)
  case Nil
  show ?case by simp
next
  case (Cons x xs)
  obtain k r where x: "x = (k, r)" by (cases x)
  from Cons.prems(2) obtain c where st: "r_created_at r = Instant c"
    by (auto simp: x is_instant_iff)
  have fresh: "k \<notin> fst ` set acc" using Cons.prems(1) by (auto simp: x)
  have d: "distinct (map fst (acc @ [(k, r)]) @ map fst xs)" using Cons.prems(1) by (auto simp: x)
  have rest: "list_all (\<lambda>(k, r). is_instant (r_created_at r)) xs"
    using Cons.prems(2) by simp
  from Cons.IH[OF d rest] show ?case
    using assms
    by (simp add: x st update_fresh[OF fresh] stamp_text_def relation_time_restore[OF st])
qed

lemma map_values_id:
  "list_all (\<lambda>(k, v). f v = v) xs \<Longrightarrow> map (\<lambda>(k, v). (k, f v)) xs = xs"
  by (induction xs) auto

lemma dict_of_py_list: "distinct (map fst idx) \<Longrightarrow> dict_of py_list idx = idx"
  by (simp add: dict_of_distinct py_list_def map_values_id list_all_iff)

lemma dict_of_py_set:
  assumes "distinct (map fst idx)" and "list_all (\<lambda>(t, ids). distinct ids) idx"
  shows "dict_of py_set idx = idx"
proof -
  have "list_all (\<lambda>(k, v). py_set v = v) idx"
    using assms(2) by (auto simp: list_all_iff py_set_distinct)
  then show ?thesis using assms(1) by (simp add: dict_of_distinct map_values_id)
qed

lemma index_round_trip:
  assumes "distinct (map fst idx)" and "list_all (\<lambda>(t, ids). distinct ids) idx"
  shows "dict_of py_set (dict_of py_list idx) = idx"
  using assms by (simp add: dict_of_py_list dict_of_py_set)

lemma nested_index_round_trip:
  assumes "distinct (map fst idx)"
    and "list_all (\<lambda>(a, by_value).
            distinct (map fst by_value) \<and> list_all (\<lambda>(v, ids). distinct ids) by_value) idx"
  shows "dict_of (dict_of py_set) (dict_of (dict_of py_list) idx) = idx"
proof -
  have "list_all (\<lambda>(k, v). dict_of py_list v = v) idx"
    using assms(2) by (auto simp: list_all_iff dict_of_py_list)
  then have 1: "dict_of (dict_of py_list) idx = idx"
    using assms(1) by (simp add: dict_of_distinct map_values_id)
  have "list_all (\<lambda>(k, v). dict_of py_set v = v) idx"
    using assms(2) by (auto simp: list_all_iff dict_of_py_set)
  then show ?thesis using assms(1) by (simp add: 1 dict_of_distinct map_values_id)
qed

text \<open>
  A store whose timestamps are all datetime objects exports, and the import of what it
  exports gives back its entity map, relation map, type index and attribute index. The
  library's \<open>fromisoformat\<close> is taken to invert its \<open>isoformat\<close>.
\<close>

lemma export_import_round_trip:
  assumes iso: "\<forall>d. fromisoformat (isoformat d) = Some d"
    and wf: "one_entry_per_key s"
    and dt: "stamps_are_datetimes s"
  shows "\<exists>data s'. to_dict isoformat s = Returned data
     \<and> from_dict fromisoformat data s0 = (Returned (), s')
     \<and> entities s' = entities s \<and> relations s' = relations s
     \<and> type_index s' = type_index s \<and> attribute_index s' = attribute_index s"
proof -
  have de: "distinct (map fst (entities s))" and dr: "distinct (map fst (relations s))"
    and dti: "distinct (map fst (type_index s))"
    and dts: "list_all (\<lambda>(t, ids). distinct ids) (type_index s)"
    and da: "distinct (map fst (attribute_index s))"
    and das: "list_all (\<lambda>(a, by_value).
            distinct (map fst by_value) \<and> list_all (\<lambda>(v, ids). distinct ids) by_value)
          (attribute_index s)"
    using wf by (simp_all add: one_entry_per_key_def)
  have ie: "list_all (\<lambda>(k, e). is_instant (e_created_at e) \<and> is_instant (e_last_accessed e))
              (entities s)"
    and ir: "list_all (\<lambda>(k, r). is_instant (r_created_at r)) (relations s)"
    using dt by (simp_all add: stamps_are_datetimes_def)
  define es where "es = map (\<lambda>(k, e). (k, entity_times e (stamp_text isoformat (e_created_at e))
                                          (stamp_text isoformat (e_last_accessed e)))) (entities s)"
  define rs where "rs = map (\<lambda>(k, r). (k, relation_time r (stamp_text isoformat (r_created_at r))))
                          (relations s)"
  define data where "data = \<lparr>kd_entities = Some es, kd_relations = Some rs,
      kd_type_index = Some (dict_of py_list (type_index s)),
      kd_attribute_index = Some (dict_of (dict_of py_list) (attribute_index s)),
      kd_statistics = Some (get_statistics isoformat s)\<rparr>"
  have ee: "export_entities isoformat (entities s) [] = Returned es"
    using export_entities_datetimes[of "[]" "entities s" isoformat] de ie by (simp add: es_def)
  have er: "export_relations isoformat (relations s) [] = Returned rs"
    using export_relations_datetimes[of "[]" "relations s" isoformat] dr ir by (simp add: rs_def)
  have out: "to_dict isoformat s = Returned data"
    by (simp add: to_dict_def ee er data_def)
  have le: "load_entities fromisoformat (get_or (kd_entities data) []) [] = (None, entities s)"
    using load_entities_exported[OF iso, of "[]" "entities s"] de ie
    by (simp add: data_def get_or_def es_def)
  have lr: "load_relations fromisoformat (get_or (kd_relations data) []) [] = (None, relations s)"
    using load_relations_exported[OF iso, of "[]" "relations s"] dr ir
    by (simp add: data_def get_or_def rs_def)
  have ti: "dict_of py_set (get_or (kd_type_index data) []) = type_index s"
    using index_round_trip[OF dti dts] by (simp add: data_def get_or_def)
  have ai: "dict_of (dict_of py_set) (get_or (kd_attribute_index data) []) = attribute_index s"
    using nested_index_round_trip[OF da das] by (simp add: data_def get_or_def)
  have "\<exists>s'. from_dict fromisoformat data s0 = (Returned (), s')
     \<and> entities s' = entities s \<and> relations s' = relations s
     \<and> type_index s' = type_index s \<and> attribute_index s' = attribute_index s"
    by (simp add: from_dict_def le lr ti ai Let_def)
  then show ?thesis using out by blast
qed

lemma export_import_round_trip_example:
  "(\<forall>d. from_tally (tally d) = Some d)
   \<and> one_entry_per_key python_store
   \<and> stamps_are_datetimes python_store
   \<and> (\<exists>data s'. to_dict tally python_store = Returned data
            \<and> from_dict from_tally data (new_store 5 5 9) = (Returned (), s')
            \<and> entities s' = entities python_store
            \<and> relations s' = relations python_store
            \<and> type_index s' = type_index python_store
            \<and> attribute_index s' = attribute_index python_store)"
proof -
  have h1: "\<forall>d. from_tally (tally d) = Some d"
    by (simp add: tally_def from_tally_def list_all_iff)
  have h2: "one_entry_per_key python_store" by code_simp
  have h3: "stamps_are_datetimes python_store" by code_simp
  from export_import_round_trip[OF h1 h2 h3, of "new_store 5 5 9"]
  show ?thesis using h1 h2 h3 by simp
qed

lemma export_restored_raises:
  assumes "entities s \<noteq> []"
  shows "to_dict isoformat (knowledge_graph_init me mr now (Some (save_knowledge_graph str_of s)))
           = Raised AttributeError"
proof -
  from assms obtain k e rest where split: "entities s = (k, e) # rest"
    by (cases "entities s") auto
  have "e_created_at (json_entity str_of e) = json_stamp str_of (e_created_at e)"
    by (simp add: json_entity_def)
  then obtain t where "e_created_at (json_entity str_of e) = Text t"
    by (cases "e_created_at e") (simp_all add: json_stamp_def)
  then show ?thesis
    by (simp add: to_dict_def knowledge_graph_init_def load_knowledge_graph_def
        save_knowledge_graph_def new_store_def split)
qed

text \<open>
  Claim C8. For every store, \<open>from_dict\<close> applied to the output of \<open>to_dict\<close>
  reproduces the entity map, the relation map and the two indexes. The store
  \<open>restored\<close> is the one the constructor builds in a second session, from the files that
  the first session saved after inserting \<open>a\<close> and \<open>b\<close>: it holds both entities, with
  the timestamps as the strings read from \<open>entities.json\<close>, and \<open>to_dict\<close> raises
  AttributeError on it, so there is no output to import. (\<open>from_dict\<close> turns the
  timestamp strings of its input into datetime objects; \<open>_load_knowledge_graph\<close> does
  not.)
\<close>

theorem export_of_restored_store_raises:
  "map fst (entities restored) = [''a'', ''b'']
   \<and> map (\<lambda>(k, e). e_created_at e) (entities two_entities) = [Instant 1, Instant 2]
   \<and> map (\<lambda>(k, e). e_created_at e) (entities restored) = [Text ''I'', Text ''II'']
   \<and> to_dict tally restored = Raised AttributeError"
  by code_simp

section \<open>Side effects of the read queries\<close>

text \<open>
  Claim C9. Every entity that \<open>find_entities_by_type\<close>, \<open>find_entities_by_attribute\<close>
  or \<open>find_related_entities\<close> returns was fetched with \<open>get_entity\<close>: the returned
  record is the stored entity with \<open>access_count\<close> one higher and \<open>last_accessed\<close>
  set to the time of the call, and the store holds that same record under the id
  afterwards. The calls change nothing else: the relations, the graph, the indexes and
  the configuration are as before, the entity map has the same ids, and each entity keeps
  every field but the two access fields. (An index set lists an id once; this is the
  hypothesis \<open>distinct\<close> on the list that stands for the set.)
\<close>

theorem reads_touch_access_only:
  "(distinct (item (type_index s) entity_type) \<longrightarrow>
      (case find_entities_by_type now entity_type limit s of
         (found, s') \<Rightarrow> only_access_changed s s'
            \<and> (\<forall>r \<in> set found. \<exists>k. fetched_from now s s' k r)))
   \<and> (distinct (item (item (attribute_index s) attribute_name) attribute_value) \<longrightarrow>
      (case find_entities_by_attribute now attribute_name attribute_value limit s of
         (found, s') \<Rightarrow> only_access_changed s s'
            \<and> (\<forall>r \<in> set found. \<exists>k. fetched_from now s s' k r)))
   \<and> (case find_related_entities now entity_id relation_types max_depth s of
         (out, s') \<Rightarrow> only_access_changed s s'
            \<and> (\<forall>rs. out = Returned rs \<longrightarrow>
                 (\<forall>r \<in> set rs. \<exists>k. k \<noteq> entity_id
                     \<and> fetched_from now s s' k (rel_entity r))))"
proof (intro conjI impI)
  assume d: "distinct (item (type_index s) entity_type)"
  show "case find_entities_by_type now entity_type limit s of
         (found, s') \<Rightarrow> only_access_changed s s'
            \<and> (\<forall>r \<in> set found. \<exists>k. fetched_from now s s' k r)"
  proof (cases "map_of (type_index s) entity_type")
    case None
    then show ?thesis by (simp add: find_entities_by_type_def)
  next
    case (Some ids)
    then have "distinct ids" using d by (simp add: item_def)
    from ranked_ids_effect[OF this] show ?thesis
      by (simp add: find_entities_by_type_def Some)
  qed
next
  assume d: "distinct (item (item (attribute_index s) attribute_name) attribute_value)"
  show "case find_entities_by_attribute now attribute_name attribute_value limit s of
         (found, s') \<Rightarrow> only_access_changed s s'
            \<and> (\<forall>r \<in> set found. \<exists>k. fetched_from now s s' k r)"
  proof (cases "map_of (attribute_index s) attribute_name")
    case None
    then show ?thesis by (simp add: find_entities_by_attribute_def)
  next
    case by_value: (Some by_value)
    show ?thesis
    proof (cases "map_of by_value attribute_value")
      case None
      then show ?thesis by (simp add: find_entities_by_attribute_def by_value)
    next
      case (Some ids)
      then have "distinct ids" using d by_value by (simp add: item_def)
      from ranked_ids_effect[OF this] show ?thesis
        by (simp add: find_entities_by_attribute_def by_value Some)
    qed
  qed
next
  obtain out s' where run: "find_related_entities now entity_id relation_types max_depth s = (out, s')"
    by (cases "find_related_entities now entity_id relation_types max_depth s")
  from find_related_entities_effect[OF run] have f: "only_access_changed s s'"
    and r: "\<forall>rs. out = Returned rs \<longrightarrow>
          (\<forall>r \<in> set rs. \<exists>lengths.
              single_source_shortest_path_length (graph s) entity_id max_depth = Returned lengths
              \<and> traversed now entity_id s s' lengths r)" by blast+
  have "\<forall>rs. out = Returned rs \<longrightarrow>
                 (\<forall>r \<in> set rs. \<exists>k. k \<noteq> entity_id \<and> fetched_from now s s' k (rel_entity r))"
    using r unfolding traversed_iff by blast
  then show "case find_related_entities now entity_id relation_types max_depth s of
         (out, s') \<Rightarrow> only_access_changed s s'
            \<and> (\<forall>rs. out = Returned rs \<longrightarrow>
                 (\<forall>r \<in> set rs. \<exists>k. k \<noteq> entity_id
                     \<and> fetched_from now s s' k (rel_entity r)))"
    using f by (simp add: run)
qed

theorem reads_touch_access_only_witness:
  "distinct (item (type_index python_store) ''language'')
   \<and> distinct (item (item (attribute_index python_store) ''typing'') ''dynamic'')
   \<and> only_access_changed python_store
         (snd (find_entities_by_type 7 ''language'' 10 python_store))
   \<and> only_access_changed python_store
         (snd (find_entities_by_attribute 7 ''typing'' ''dynamic'' 10 python_store))
   \<and> only_access_changed python_store
         (snd (find_related_entities 7 ''e1'' None 2 python_store))
   \<and> map e_access_count (fst (find_entities_by_type 7 ''language'' 10 python_store)) = [1, 1]
   \<and> map (\<lambda>(k, e). (k, e_access_count e, e_last_accessed e))
         (entities (snd (find_entities_by_type 7 ''language'' 10 python_store)))
       = [(''e1'', 1, Instant 7), (''e2'', 1, Instant 7)]
   \<and> map (\<lambda>(k, e). (k, e_access_count e, e_last_accessed e))
         (entities (snd (find_entities_by_attribute 7 ''typing'' ''dynamic'' 10 python_store)))
       = [(''e1'', 1, Instant 7), (''e2'', 0, Instant 2)]
   \<and> map (\<lambda>(k, e). (k, e_access_count e, e_last_accessed e))
         (entities (snd (find_related_entities 7 ''e1'' None 2 python_store)))
       = [(''e1'', 0, Instant 1), (''e2'', 1, Instant 7)]"
proof -
  have h1: "distinct (item (type_index python_store) ''language'')" by code_simp
  have h2: "distinct (item (item (attribute_index python_store) ''typing'') ''dynamic'')"
    by code_simp
  have c1: "map e_access_count (fst (find_entities_by_type 7 ''language'' 10 python_store))
              = [1, 1]"
    by code_simp
  have c2: "map (\<lambda>(k, e). (k, e_access_count e, e_last_accessed e))
         (entities (snd (find_entities_by_type 7 ''language'' 10 python_store)))
       = [(''e1'', 1, Instant 7), (''e2'', 1, Instant 7)]"
    by code_simp
  have c3: "map (\<lambda>(k, e). (k, e_access_count e, e_last_accessed e))
         (entities (snd (find_entities_by_attribute 7 ''typing'' ''dynamic'' 10 python_store)))
       = [(''e1'', 1, Instant 7), (''e2'', 0, Instant 2)]"
    by code_simp
  have c4: "map (\<lambda>(k, e). (k, e_access_count e, e_last_accessed e))
         (entities (snd (find_related_entities 7 ''e1'' None 2 python_store)))
       = [(''e1'', 0, Instant 1), (''e2'', 1, Instant 7)]"
    by code_simp
  from reads_touch_access_only[of python_store "''language''" 7 10 "''typing''" "''dynamic''"
         "''e1''" None 2]
  have "only_access_changed python_store
         (snd (find_entities_by_type 7 ''language'' 10 python_store))
   \<and> only_access_changed python_store
         (snd (find_entities_by_attribute 7 ''typing'' ''dynamic'' 10 python_store))
   \<and> only_access_changed python_store
         (snd (find_related_entities 7 ''e1'' None 2 python_store))"
    using h1 h2 by (simp add: case_prod_beta)
  then show ?thesis using h1 h2 c1 c2 c3 c4 by simp
qed

section \<open>Traversal to depth one\<close>

text \<open>
  Claim C6. In a graph with a directed edge from entity \<open>a\<close> to another entity \<open>b\<close>,
  \<open>find_related_entities(a, max_depth=1)\<close> without a relation-type filter returns
  \<open>b\<close> (the copy that \<open>get_entity\<close> gives) with distance 1 and
  \<open>relationship_strength\<close> exactly 0.5, and every entity it returns has distance 1,
  strength 0.5 and is stored under an id \<open>c \<noteq> a\<close> that an edge from \<open>a\<close> reaches
  directly: an entity whose shortest path from \<open>a\<close> is longer than one edge is not
  returned. The source itself is never returned, so \<open>b\<close> is an entity other than
  \<open>a\<close>; as in networkx, the source of an edge is a node of the graph.
\<close>

theorem direct_neighbour_is_related:
  assumes a: "map_of (entities s) a \<noteq> None" and b: "map_of (entities s) b = Some e"
    and ab: "a \<noteq> b" and edge: "has_edge (graph s) a b key" and node: "has_node (graph s) a"
  shows "\<exists>rs s'. find_related_entities now a None 1 s = (Returned rs, s')
     \<and> \<lparr>rel_entity = accessed now e, relationship_distance = 1,
         relationship_strength = 1 / 2\<rparr> \<in> set rs
     \<and> (\<forall>r \<in> set rs. relationship_distance r = 1 \<and> relationship_strength r = 1 / 2
           \<and> (\<exists>c kc. c \<noteq> a \<and> has_edge (graph s) a c kc
                 \<and> fetched_from now s s' c (rel_entity r)))"
proof -
  from path_lengths_depth_one[OF node] obtain nxt where
    len: "single_source_shortest_path_length (graph s) a 1
            = Returned ((a, 0) # map (\<lambda>w. (w, 1)) nxt)"
    and nxt: "set nxt = set (succs (graph s) a) - {a}" by blast
  let ?lengths = "(a, 0) # map (\<lambda>w. (w, 1::int)) nxt"
  have dist: "distinct (map fst ?lengths)" by (rule path_lengths_distinct[OF len])
  from related_loop_returns[OF dist, of None now a "[]" s] obtain rs1 s' where
    loop: "related_loop now a None ?lengths [] s = (Returned rs1, s')"
    and complete: "\<forall>k d e. (k, d) \<in> set ?lengths \<and> k \<noteq> a \<and> map_of (entities s) k = Some e
            \<and> \<not> d + 1 < 2 \<longrightarrow>
          \<lparr>rel_entity = accessed now e, relationship_distance = d,
            relationship_strength = 1 / (of_int d + 1)\<rparr> \<in> set rs1" by auto
  have run: "find_related_entities now a None 1 s
               = (Returned (sort_desc relationship_strength rs1), s')"
    using a by (auto simp add: find_related_entities_def len loop simp del: related_loop.simps)
  have "b \<in> set nxt" using edge ab nxt succs_iff[of b "graph s" a] by auto
  then have "(b, 1) \<in> set ?lengths \<and> b \<noteq> a \<and> map_of (entities s) b = Some e
               \<and> \<not> (1::int) + 1 < 2"
    using b ab by auto
  from complete[rule_format, OF this]
  have "\<lparr>rel_entity = accessed now e, relationship_distance = 1,
            relationship_strength = 1 / (of_int 1 + 1)\<rparr> \<in> set rs1" .
  then have hit: "\<lparr>rel_entity = accessed now e, relationship_distance = 1,
         relationship_strength = 1 / 2\<rparr> \<in> set (sort_desc relationship_strength rs1)"
    by (simp add: set_sort_desc)
  from related_loop_effect[OF dist loop] have
    eff: "\<forall>r \<in> set rs1. traversed now a s s' ?lengths r" by auto
  have only: "relationship_distance r = 1 \<and> relationship_strength r = 1 / 2
           \<and> (\<exists>c kc. c \<noteq> a \<and> has_edge (graph s) a c kc
                 \<and> fetched_from now s s' c (rel_entity r))"
    if "r \<in> set (sort_desc relationship_strength rs1)" for r
  proof -
    from that eff have "traversed now a s s' ?lengths r" by (simp add: set_sort_desc)
    then obtain k d where kd: "(k, d) \<in> set ?lengths" "k \<noteq> a"
      "fetched_from now s s' k (rel_entity r)" "relationship_distance r = d"
      "relationship_strength r = 1 / (of_int d + 1)"
      unfolding traversed_iff by blast
    from kd(1,2) have d1: "d = 1" and kin: "k \<in> set nxt" by auto
    from kin nxt succs_iff[of k "graph s" a] obtain kc where "has_edge (graph s) a k kc" by auto
    then show ?thesis using kd d1 by auto
  qed
  show ?thesis using run hit only by blast
qed

theorem direct_neighbour_is_related_witness:
  "map_of (entities chain_store) ''x'' \<noteq> None
   \<and> map_of (entities chain_store) ''y'' = Some chain_y
   \<and> ''x'' \<noteq> ''y''
   \<and> has_edge (graph chain_store) ''x'' ''y'' ''rel_4.0''
   \<and> has_edge (graph chain_store) ''y'' ''z'' ''rel_5.0''
   \<and> has_node (graph chain_store) ''x''
   \<and> (\<exists>rs s'. find_related_entities 7 ''x'' None 1 chain_store = (Returned rs, s')
         \<and> \<lparr>rel_entity = accessed 7 chain_y, relationship_distance = 1,
             relationship_strength = 1 / 2\<rparr> \<in> set rs)
   \<and> fst (find_related_entities 7 ''x'' None 1 chain_store)
       = Returned [\<lparr>rel_entity = accessed 7 chain_y, relationship_distance = 1,
                     relationship_strength = 1 / 2\<rparr>]"
proof -
  have h1: "map_of (entities chain_store) ''x'' \<noteq> None" by code_simp
  have h2: "map_of (entities chain_store) ''y'' = Some chain_y" by code_simp
  have h3: "''x'' \<noteq> ''y''" by simp
  have h4: "has_edge (graph chain_store) ''x'' ''y'' ''rel_4.0''" by code_simp
  have h5: "has_node (graph chain_store) ''x''" by code_simp
  have c1: "has_edge (graph chain_store) ''y'' ''z'' ''rel_5.0''" by code_simp
  have c2: "fst (find_related_entities 7 ''x'' None 1 chain_store)
       = Returned [\<lparr>rel_entity = accessed 7 chain_y, relationship_distance = 1,
                     relationship_strength = 1 / 2\<rparr>]"
    by code_simp
  from direct_neighbour_is_related[OF h1 h2 h3 h4 h5, of 7]
  have "\<exists>rs s'. find_related_entities 7 ''x'' None 1 chain_store = (Returned rs, s')
         \<and> \<lparr>rel_entity = accessed 7 chain_y, relationship_distance = 1,
             relationship_strength = 1 / 2\<rparr> \<in> set rs"
    by blast
  then show ?thesis using h1 h2 h3 h4 h5 c1 c2 by simp
qed

end
